theory Spec2Isabelle
  imports Complex_Main "HOL-Library.Sublist"
begin

section \<open>ECMAScript strings and the regular expressions the program uses\<close>

text \<open>
  A string is a sequence of UTF-16 code units, and a code unit is written as an integer
  (from \<open>0\<close> to \<open>65535\<close> in every string of the program; no definition depends on
  the bounds, and what is proved holds for every list of integers). The ASCII text of the source
  is written \<open>str ''...''\<close>. The regular expressions of the program carry no \<open>u\<close>
  flag: they work on code units.

  \<open>String.prototype.toLowerCase\<close> belongs to the platform; its Unicode tables are not
  part of the program. Every definition that calls it takes it as the parameter
  \<open>toLowerCase\<close>, and what is proved of such a definition holds for every function in
  that place.
\<close>

type_synonym codeUnit = int

type_synonym jsString = "codeUnit list"

definition str :: "string \<Rightarrow> jsString" where
  "str s = map of_char s"

text \<open>
  \<open>\s\<close>, and what \<open>trim\<close> removes: the white space and line terminator code points
  TAB, LF, VT, FF, CR, SPACE, U+00A0, U+1680, U+2000 to U+200A, U+2028, U+2029, U+202F,
  U+205F, U+3000 and U+FEFF.
\<close>

definition isWhiteSpace :: "codeUnit \<Rightarrow> bool" where
  "isWhiteSpace c =
     (c \<in> {0x09, 0x0A, 0x0B, 0x0C, 0x0D, 0x20, 0xA0, 0x1680, 0x2028, 0x2029, 0x202F, 0x205F,
            0x3000, 0xFEFF} \<or>
      (0x2000 \<le> c \<and> c \<le> 0x200A))"

text \<open>\<open>\w\<close> is \<open>[A-Za-z0-9_]\<close>.\<close>

definition isWordChar :: "codeUnit \<Rightarrow> bool" where
  "isWordChar c =
     ((48 \<le> c \<and> c \<le> 57) \<or> (65 \<le> c \<and> c \<le> 90) \<or> c = 95 \<or> (97 \<le> c \<and> c \<le> 122))"

text \<open>
  The canonical form in which a pattern character and an input character are compared
  under the \<open>i\<close> flag without the \<open>u\<close> flag. Every pattern of the program is ASCII,
  and the canonical form of a code unit from \<open>128\<close> on is never below \<open>128\<close>: against
  these patterns only the upper-case forms of \<open>a\<close> to \<open>z\<close> matter.
\<close>

definition canonicalize :: "codeUnit \<Rightarrow> codeUnit" where
  "canonicalize c = (if 97 \<le> c \<and> c \<le> 122 then c - 32 else c)"

text \<open>
  Letter case as these expressions ignore it: \<open>A\<close> to \<open>Z\<close> are identified with \<open>a\<close>
  to \<open>z\<close>, and nothing else is.
\<close>

definition asciiLowerChar :: "codeUnit \<Rightarrow> codeUnit" where
  "asciiLowerChar c = (if 65 \<le> c \<and> c \<le> 90 then c + 32 else c)"

definition asciiLowerCase :: "jsString \<Rightarrow> jsString" where
  "asciiLowerCase s = map asciiLowerChar s"

text \<open>
  On a string of ASCII code units \<open>String.prototype.toLowerCase\<close> does exactly this:
  \<open>lowersAscii lower\<close> says so of a function \<open>lower\<close>, and says nothing of what it
  does to other strings.
\<close>

definition isAscii :: "jsString \<Rightarrow> bool" where
  "isAscii s = list_all (\<lambda>c. 0 \<le> c \<and> c < 128) s"

definition lowersAscii :: "(jsString \<Rightarrow> jsString) \<Rightarrow> bool" where
  "lowersAscii lower = (\<forall>s. isAscii s \<longrightarrow> lower s = asciiLowerCase s)"

text \<open>\<open>s.includes(q)\<close>: \<open>q\<close> occurs in \<open>s\<close> as a contiguous run.\<close>

fun includesStr :: "jsString \<Rightarrow> jsString \<Rightarrow> bool" where
  "includesStr [] q = (q = [])"
| "includesStr (c # cs) q = (prefix q (c # cs) \<or> includesStr cs q)"

text \<open>\<open>s.replace(/\s+/g, ' ')\<close>: every maximal run of whitespace becomes one space.\<close>

function collapseWhitespace :: "jsString \<Rightarrow> jsString" where
  "collapseWhitespace [] = []"
| "collapseWhitespace (c # cs) =
     (if isWhiteSpace c then (32::int) # collapseWhitespace (dropWhile isWhiteSpace cs)
      else c # collapseWhitespace cs)"
  by pat_completeness auto
termination
  by (relation "measure length") (auto simp: less_Suc_eq_le length_dropWhile_le)

definition trim :: "jsString \<Rightarrow> jsString" where
  "trim s = rev (dropWhile isWhiteSpace (rev (dropWhile isWhiteSpace s)))"

text \<open>\<open>s.replace(/[<>]/g, '')\<close>.\<close>

definition stripAngleBrackets :: "jsString \<Rightarrow> jsString" where
  "stripAngleBrackets s = filter (\<lambda>c. c \<noteq> (60::int) \<and> c \<noteq> (62::int)) s"

text \<open>
  A literal under the \<open>i\<close> flag, tried at the start of the input: the matched text and
  what follows it.
\<close>

definition matchLiteral :: "jsString \<Rightarrow> jsString \<Rightarrow> (jsString \<times> jsString) option" where
  "matchLiteral p s =
     (if length p \<le> length s \<and> map canonicalize (take (length p) s) = map canonicalize p
      then Some (take (length p) s, drop (length p) s) else None)"

text \<open>\<open>/p1|p2|.../i.test(s)\<close> for literals: some alternative matches at some position.\<close>

fun testAlternatives :: "jsString list \<Rightarrow> jsString \<Rightarrow> bool" where
  "testAlternatives ps [] = (\<exists>p \<in> set ps. p = [])"
| "testAlternatives ps (c # cs) =
     ((\<exists>p \<in> set ps. matchLiteral p (c # cs) \<noteq> None) \<or> testAlternatives ps cs)"

subsection \<open>The banned-word expression \<open>\b(badword|curse|offensive)\b\<close> with flags \<open>gi\<close>\<close>

definition banned :: "jsString list" where
  "banned = [(str ''badword''), (str ''curse''), (str ''offensive'')]"

definition maskToken :: jsString where
  "maskToken = (str ''****'')"

fun wordCharOpt :: "codeUnit option \<Rightarrow> bool" where
  "wordCharOpt None = False"
| "wordCharOpt (Some c) = isWordChar c"

fun headOpt :: "jsString \<Rightarrow> codeUnit option" where
  "headOpt [] = None"
| "headOpt (c # cs) = Some c"

text \<open>
  \<open>\b\<close> between the character before a position (none at the start of the input) and the
  character at it (none at the end).
\<close>

definition wordBoundary :: "codeUnit option \<Rightarrow> codeUnit option \<Rightarrow> bool" where
  "wordBoundary prev nxt = (wordCharOpt prev \<noteq> wordCharOpt nxt)"

text \<open>
  The group and the closing \<open>\b\<close>: the alternatives are tried in order, and one whose
  closing boundary fails gives way to the next.
\<close>

fun matchGroup :: "jsString list \<Rightarrow> codeUnit option \<Rightarrow> jsString \<Rightarrow> (jsString \<times> jsString) option" where
  "matchGroup [] prev s = None"
| "matchGroup (w # ws) prev s =
     (case matchLiteral w s of
        Some (m, rest) \<Rightarrow>
          if wordBoundary (if m = [] then prev else Some (last m)) (headOpt rest)
          then Some (m, rest) else matchGroup ws prev s
      | None \<Rightarrow> matchGroup ws prev s)"

definition bannedRegexAt :: "codeUnit option \<Rightarrow> jsString \<Rightarrow> (jsString \<times> jsString) option" where
  "bannedRegexAt prev s =
     (if wordBoundary prev (headOpt s) then matchGroup banned prev s else None)"

text \<open>\<open>bannedRegex.test(text)\<close> on a fresh expression: a match at some position.\<close>

fun bannedRegexTest :: "codeUnit option \<Rightarrow> jsString \<Rightarrow> bool" where
  "bannedRegexTest prev [] = False"
| "bannedRegexTest prev (c # cs) =
     (bannedRegexAt prev (c # cs) \<noteq> None \<or> bannedRegexTest (Some c) cs)"

text \<open>
  \<open>text.replace(bannedRegex, '****')\<close>: the global replacement starts at index 0 and
  goes on after each match; a position with no match keeps its character.
\<close>

function replaceBanned :: "codeUnit option \<Rightarrow> jsString \<Rightarrow> jsString" where
  "replaceBanned prev [] = []"
| "replaceBanned prev (c # cs) =
     (case bannedRegexAt prev (c # cs) of
        Some (m, rest) \<Rightarrow> maskToken @ replaceBanned (Some (last m)) rest
      | None \<Rightarrow> c # replaceBanned (Some c) cs)"
  by pat_completeness auto
termination
proof (relation "measure (\<lambda>(prev, s). length s)")
  show "wf (measure (\<lambda>(prev :: codeUnit option, s :: jsString). length s))"
    by simp
next
  fix prev c cs x2 m rest
  assume at: "bannedRegexAt prev (c # cs) = Some x2" and x2: "(m, rest) = x2"
  have "\<exists>w \<in> set ws. length r + length w = length s"
    if "matchGroup ws p s = Some (a, r)" for ws p s a r
    using that
    by (induction ws) (auto simp: matchLiteral_def split: option.splits if_splits)
  moreover from at x2 have "matchGroup banned prev (c # cs) = Some (m, rest)"
    by (simp add: bannedRegexAt_def split: if_splits)
  ultimately have "\<exists>w \<in> set banned. length rest + length w = length (c # cs)"
    by blast
  then have "length rest < length (c # cs)"
    by (auto simp: banned_def str_def)
  then show "((Some (last m), rest), (prev, c # cs)) \<in> measure (\<lambda>(prev, s). length s)"
    by simp
next
  fix prev :: "codeUnit option" and c :: codeUnit and cs :: jsString
  show "((Some c, cs), (prev, c # cs)) \<in> measure (\<lambda>(prev, s). length s)"
    by simp
qed

section \<open>Promises, the host and the delay utility\<close>

text \<open>
  A promise is modelled by the state it ends in: \<open>Pending\<close> is a promise that never
  settles. \<open>await\<close> resumes with the value of a fulfilled promise, rethrows the reason of
  a rejected one, and never resumes on a pending one.
\<close>

datatype error = TypeError

datatype 'a promise = Pending | Fulfilled 'a | Rejected error

definition await :: "'a promise \<Rightarrow> ('a \<Rightarrow> 'b promise) \<Rightarrow> 'b promise" where
  "await p k = (case p of Pending \<Rightarrow> Pending | Fulfilled v \<Rightarrow> k v | Rejected e \<Rightarrow> Rejected e)"

text \<open>
  The only callback \<open>delay\<close> hands out is \<open>() => resolve()\<close>. A timer function is
  modelled by the callbacks it will run; the host's \<open>setTimeout\<close> runs the one it is
  given, the fallback of \<open>delay\<close> runs none.
\<close>

datatype callback = Resolve

type_synonym timerFn = "callback \<Rightarrow> real \<Rightarrow> callback list"

record globalThis =
  setTimeout :: "timerFn option"

definition hostSetTimeout :: timerFn where
  "hostSetTimeout cb t = [cb]"

definition noop :: timerFn where
  "noop cb t = []"

definition delay :: "globalThis \<Rightarrow> real \<Rightarrow> unit promise" where
  "delay g ms =
     (let fn = (case setTimeout g of Some f \<Rightarrow> f | None \<Rightarrow> noop)
      in if Resolve \<in> set (fn Resolve ms) then Fulfilled () else Pending)"

section \<open>Property lookup on an object literal\<close>

text \<open>
  \<open>obj[key]\<close> on an object written as a literal finds the literal's own properties and,
  failing that, the properties of \<open>Object.prototype\<close> (functions, and the prototype
  object itself for \<open>__proto__\<close>: truthy values that are not arrays); any other key
  gives \<open>undefined\<close>.
\<close>

datatype 'a property = Own 'a | Inherited | Undefined

definition objectPrototypeNames :: "jsString list" where
  "objectPrototypeNames =
     [(str ''constructor''), (str ''__proto__''), (str ''hasOwnProperty''), (str ''isPrototypeOf''),
      (str ''propertyIsEnumerable''), (str ''toLocaleString''), (str ''toString''), (str ''valueOf''),
      (str ''__defineGetter__''), (str ''__defineSetter__''), (str ''__lookupGetter__''), (str ''__lookupSetter__'')]"

definition getProperty :: "(jsString \<times> 'a) list \<Rightarrow> jsString \<Rightarrow> 'a property" where
  "getProperty obj key =
     (case map_of obj key of
        Some v \<Rightarrow> Own v
      | None \<Rightarrow> if key \<in> set objectPrototypeNames then Inherited else Undefined)"

section \<open>The retrieval-and-synthesis service (\<open>RagService\<close>)\<close>

datatype Role = User | Assistant | System

record FaqEntry =
  title :: jsString
  content :: jsString

record ChatMessage =
  role :: Role
  content :: jsString
  error :: "bool option"

definition mockKnowledgeBase :: "(jsString \<times> jsString list) list" where
  "mockKnowledgeBase =
     [((str ''getting-started''),
        [(str ''Welcome to our platform! To get started, create an account and verify your email.''),
         (str ''Use your dashboard to set up initial preferences and connect integrations.'')]),
      ((str ''account''),
        [(str ''You can update billing details under Settings > Billing.''),
         (str ''Invoices are generated monthly and emailed to the account owner.'')]),
      ((str ''security''),
        [(str ''We support SSO, MFA, and granular role-based access control.''),
         (str ''All data is encrypted at rest and in transit.'')]),
      ((str ''api''),
        [(str ''Use API keys from Settings > API to authenticate your requests.''),
         (str ''Rate limiting is enforced at 60 requests per minute.'')]),
      ((str ''troubleshooting''),
        [(str ''Try clearing cache and re-authenticating if something looks off.''),
         (str ''Contact support with your request ID for detailed investigation.'')]),
      ((str ''default''),
        [(str ''I can help with getting started, account & billing, security, API & integrations, and troubleshooting.''),
         (str ''Please ask a question or select a topic.'')])]"

text \<open>\<open>s.split(' ')[0] || ''\<close>: what stands before the first space.\<close>

definition firstToken :: "jsString \<Rightarrow> jsString" where
  "firstToken s = takeWhile (\<lambda>c. c \<noteq> (32::int)) s"

text \<open>\<open>topic && this.mockKnowledgeBase[topic] ? topic : 'default'\<close>, for either table.\<close>

definition bucketKey :: "(jsString \<times> 'a) list \<Rightarrow> jsString option \<Rightarrow> jsString" where
  "bucketKey table topic =
     (case topic of
        None \<Rightarrow> (str ''default'')
      | Some t \<Rightarrow> if t \<noteq> [] \<and> getProperty table t \<noteq> Undefined then t else (str ''default''))"

definition retrieveFromChroma ::
  "(jsString \<Rightarrow> jsString) \<Rightarrow> globalThis \<Rightarrow> jsString \<Rightarrow> jsString option \<Rightarrow> jsString list promise" where
  "retrieveFromChroma toLowerCase g query topic =
     await (delay g 200) (\<lambda>_.
       let key = bucketKey mockKnowledgeBase topic in
       case getProperty mockKnowledgeBase key of
         Own base \<Rightarrow>
           let subset = filter (\<lambda>s. includesStr (toLowerCase s) (firstToken (toLowerCase query))) base
           in Fulfilled (if subset \<noteq> [] then subset else take 2 base)
       | Inherited \<Rightarrow> Rejected TypeError
       | Undefined \<Rightarrow> Rejected TypeError)"

definition selectMcpTool :: "jsString \<Rightarrow> jsString" where
  "selectMcpTool question =
     (if testAlternatives [(str ''billing''), (str ''invoice''), (str ''payment'')] question then (str ''billing.lookup'')
      else if testAlternatives [(str ''api''), (str ''key''), (str ''token''), (str ''rate'')] question then (str ''api.docs.search'')
      else if testAlternatives [(str ''security''), (str ''mfa''), (str ''sso''), (str ''rbac'')] question
        then (str ''security.policy.fetch'')
      else if testAlternatives [(str ''troubleshoot''), (str ''error''), (str ''issue'')] question
        then (str ''diagnostics.helper'')
      else (str ''knowledge.search''))"

text \<open>\<open>xs.join(sep)\<close>.\<close>

fun joinWith :: "jsString \<Rightarrow> jsString list \<Rightarrow> jsString" where
  "joinWith sep [] = []"
| "joinWith sep [x] = x"
| "joinWith sep (x # y # ys) = x @ sep @ joinWith sep (y # ys)"

text \<open>U+2022 BULLET and U+2019 RIGHT SINGLE QUOTATION MARK, and the line feed.\<close>

definition bullet :: jsString where
  "bullet = [0x2022]"

definition rsquo :: jsString where
  "rsquo = [0x2019]"

definition lf :: jsString where
  "lf = [0x0A]"

definition synthesizeAnswer :: "jsString \<Rightarrow> jsString list \<Rightarrow> jsString \<Rightarrow> jsString" where
  "synthesizeAnswer question docs tool =
     (let context = joinWith lf (map (\<lambda>d. bullet @ (str '' '') @ d) docs)
      in (str ''Here'') @ rsquo @ (str ''s what I found using '') @ tool @ (str '':'') @ lf @ context @ lf @ lf @
         (str ''If you need more details, feel free to ask or refine by selecting a topic.''))"

text \<open>\<open>rnd\<close> is the value \<open>Math.random()\<close> returns in the call.\<close>

definition ask ::
  "(jsString \<Rightarrow> jsString) \<Rightarrow> globalThis \<Rightarrow> real \<Rightarrow> jsString \<Rightarrow> jsString option \<Rightarrow> ChatMessage promise" where
  "ask toLowerCase g rnd question topic =
     await (retrieveFromChroma toLowerCase g question topic) (\<lambda>docs.
       let toolUsed = selectMcpTool question;
           answer = synthesizeAnswer question docs toolUsed
       in await (delay g (450 + rnd * 300)) (\<lambda>_.
            Fulfilled \<lparr>role = Assistant, content = answer, error = None\<rparr>))"

section \<open>The chat panel (\<open>ChatboxComponent\<close>)\<close>

record FilterResult =
  cleaned :: "jsString option"
  feedback :: "jsString option"

definition filterInput :: "jsString \<Rightarrow> FilterResult" where
  "filterInput raw =
     (let text = trim (collapseWhitespace raw) in
      if text = [] then \<lparr>cleaned = None, feedback = None\<rparr>
      else if bannedRegexTest None text
      then \<lparr>cleaned = Some (replaceBanned None text),
            feedback = Some (str ''Note: Certain words were masked for safety.'')\<rparr>
      else \<lparr>cleaned = Some (stripAngleBrackets text), feedback = None\<rparr>)"

record ChatboxComponent =
  input :: jsString
  sending :: bool
  messages :: "ChatMessage list"
  activeTopic :: "jsString option"
  filterFeedback :: "jsString option"
  filterMatches :: bool
  filteredMessages :: "ChatMessage list"
  filteredFaqs :: "FaqEntry list"
  lastQuery :: jsString

definition faqCatalog :: "(jsString \<times> FaqEntry list) list" where
  "faqCatalog =
     [((str ''getting-started''),
        [\<lparr>title = (str ''Create an account''),
          content = (str ''To get started, sign up and verify your email to activate your account.'')\<rparr>,
         \<lparr>title = (str ''Initial setup''),
          content = (str ''Use the dashboard to configure preferences and connect integrations.'')\<rparr>]),
      ((str ''account''),
        [\<lparr>title = (str ''Billing details''),
          content = (str ''Update billing details under Settings > Billing and download invoices.'')\<rparr>,
         \<lparr>title = (str ''Invoices & charges''),
          content = (str ''Invoices are generated monthly and emailed to the account owner.'')\<rparr>]),
      ((str ''security''),
        [\<lparr>title = (str ''Authentication''),
          content = (str ''We support SSO and MFA. Enable MFA for higher security.'')\<rparr>,
         \<lparr>title = (str ''Access control''),
          content = (str ''Use granular role-based access control (RBAC) to restrict permissions.'')\<rparr>]),
      ((str ''api''),
        [\<lparr>title = (str ''API keys''),
          content = (str ''Generate and manage API keys from Settings > API.'')\<rparr>,
         \<lparr>title = (str ''Rate limits''),
          content = (str ''API rate limiting is enforced at 60 requests per minute.'')\<rparr>]),
      ((str ''troubleshooting''),
        [\<lparr>title = (str ''Common fixes''),
          content = (str ''Clear cache and re-authenticate if something looks off.'')\<rparr>,
         \<lparr>title = (str ''Contact support''),
          content = (str ''Provide your request ID to support for detailed investigation.'')\<rparr>]),
      ((str ''default''),
        [\<lparr>title = (str ''General help''),
          content = (str ''Ask about getting started, account & billing, security, API & integrations, or troubleshooting.'')\<rparr>])]"

definition buildFilterDataset :: "ChatboxComponent \<Rightarrow> ChatMessage list" where
  "buildFilterDataset s = messages s"

definition isContextNote :: "ChatMessage \<Rightarrow> bool" where
  "isContextNote m =
     (role m = System \<and> testAlternatives [(str ''Context updated to topic'')] (ChatMessage.content m))"

text \<open>\<open>inTopic\<close> is truthy: a topic that is neither \<open>null\<close> nor the empty string.\<close>

definition inTopic :: "ChatboxComponent \<Rightarrow> bool" where
  "inTopic s = (case activeTopic s of None \<Rightarrow> False | Some t \<Rightarrow> t \<noteq> [])"

definition computeFilteredHistory ::
  "(jsString \<Rightarrow> jsString) \<Rightarrow> ChatboxComponent \<Rightarrow> jsString \<Rightarrow> ChatMessage list" where
  "computeFilteredHistory toLowerCase s query =
     (let q = toLowerCase query;
          data = buildFilterDataset s
      in filter (\<lambda>m. if inTopic s \<and> isContextNote m then True
                      else includesStr (toLowerCase (ChatMessage.content m)) q) data)"

text \<open>
  \<open>faqs.filter\<close> is a call of \<open>undefined\<close> when \<open>faqs\<close> is not an array: a
  \<open>TypeError\<close>. An \<open>undefined\<close> bucket is replaced by \<open>[]\<close>.
\<close>

definition computeFilteredFaqs ::
  "(jsString \<Rightarrow> jsString) \<Rightarrow> ChatboxComponent \<Rightarrow> jsString \<Rightarrow> error + FaqEntry list" where
  "computeFilteredFaqs toLowerCase s query =
     (let q = toLowerCase query;
          topicKey = bucketKey faqCatalog (activeTopic s)
      in case getProperty faqCatalog topicKey of
           Inherited \<Rightarrow> Inl TypeError
         | Undefined \<Rightarrow> Inr []
         | Own faqs \<Rightarrow>
             Inr (filter (\<lambda>f. includesStr (toLowerCase (title f)) q
                              \<or> includesStr (toLowerCase (FaqEntry.content f)) q) faqs))"

definition resetFilterView :: "ChatboxComponent \<Rightarrow> ChatboxComponent" where
  "resetFilterView s =
     s\<lparr>filterMatches := False, filteredMessages := [], filteredFaqs := [], lastQuery := []\<rparr>"

text \<open>\<open>topic.replace('-', ' ')\<close>: the first hyphen only.\<close>

fun replaceFirstHyphen :: "jsString \<Rightarrow> jsString" where
  "replaceFirstHyphen [] = []"
| "replaceFirstHyphen (c # cs) =
     (if c = (45::int) then (32::int) # cs else c # replaceFirstHyphen cs)"

text \<open>The callback the constructor subscribes to the topic bridge.\<close>

definition onTopic :: "jsString option \<Rightarrow> ChatboxComponent \<Rightarrow> ChatboxComponent" where
  "onTopic topic s =
     (let s1 = resetFilterView (s\<lparr>activeTopic := topic\<rparr>)
      in case topic of
           None \<Rightarrow> s1
         | Some t \<Rightarrow>
             if t = [] then s1
             else s1\<lparr>messages := messages s1 @
                    [\<lparr>role = System,
                      content = (str ''Context updated to topic: '') @ replaceFirstHyphen t,
                      error = None\<rparr>]\<rparr>)"

definition clear :: "ChatboxComponent \<Rightarrow> ChatboxComponent" where
  "clear s =
     resetFilterView
       (s\<lparr>messages := [\<lparr>role = Assistant, content = (str ''Chat cleared. How can I help you next?''),
                         error = None\<rparr>],
          filterFeedback := None\<rparr>)"

subsection \<open>\<open>send\<close>\<close>

text \<open>
  \<open>send\<close> runs up to its \<open>await\<close> in one step and resumes when the promise of
  \<open>ask\<close> settles. In between, other handlers of the panel may run.
  \<^item> \<open>Returned s\<close>: \<open>send\<close> is over, with the panel in state \<open>s\<close>;
  \<^item> \<open>Threw e s\<close>: an exception left \<open>send\<close> (its promise is rejected);
  \<^item> \<open>Awaiting s q t\<close>: \<open>this.rag.ask(q, {topic: t})\<close> has been called and \<open>send\<close>
    waits for it.
\<close>

datatype sendResult =
    Returned ChatboxComponent
  | Threw error ChatboxComponent
  | Awaiting ChatboxComponent jsString "jsString option"

definition errMsg :: ChatMessage where
  "errMsg = \<lparr>role = Assistant,
             content = (str ''Sorry, something went wrong while fetching the answer.''),
             error = Some True\<rparr>"

definition maskNote :: ChatMessage where
  "maskNote = \<lparr>role = System, content = (str ''Note: Certain words were masked for safety.''),
               error = None\<rparr>"

definition sendBegin :: "(jsString \<Rightarrow> jsString) \<Rightarrow> ChatboxComponent \<Rightarrow> sendResult" where
  "sendBegin toLowerCase s =
     (if sending s then Returned s
      else
        let r = filterInput (input s) in
        case cleaned r of
          None \<Rightarrow> Returned (s\<lparr>filterFeedback := Some (str ''Please enter a question before sending.'')\<rparr>)
        | Some c \<Rightarrow>
            if c = [] then
              Returned (s\<lparr>filterFeedback := Some (str ''Please enter a question before sending.'')\<rparr>)
            else
              let s1 = s\<lparr>filterFeedback := feedback r, lastQuery := c\<rparr> in
              (case computeFilteredFaqs toLowerCase s1 c of
                Inl e \<Rightarrow> Threw e s1
              | Inr faqs \<Rightarrow>
                  let s2 = s1\<lparr>filteredFaqs := faqs\<rparr>;
                      s3 = s2\<lparr>filteredMessages := computeFilteredHistory toLowerCase s2 c\<rparr>;
                      s4 = s3\<lparr>filterMatches := True, sending := True\<rparr>;
                      s5 = s4\<lparr>messages := messages s4 @ [\<lparr>role = User, content = c, error = None\<rparr>],
                              input := []\<rparr>;
                      s6 = (case feedback r of
                              None \<Rightarrow> s5
                            | Some f \<Rightarrow>
                                if f \<noteq> [] \<and> testAlternatives [(str ''masked'')] f
                                then s5\<lparr>messages := messages s5 @ [maskNote]\<rparr> else s5)
                  in Awaiting s6 (lastQuery s6) (activeTopic s6)))"

text \<open>
  The re-evaluation of the filters after a message was appended:
  \<open>if (this.lastQuery) { ... }\<close>, which appears in the \<open>try\<close> and in the \<open>catch\<close> block.
\<close>

definition refilter ::
  "(jsString \<Rightarrow> jsString) \<Rightarrow> ChatboxComponent \<Rightarrow> error + ChatboxComponent" where
  "refilter toLowerCase s =
     (if lastQuery s = [] then Inr s
      else case computeFilteredFaqs toLowerCase s (lastQuery s) of
             Inl e \<Rightarrow> Inl e
           | Inr faqs \<Rightarrow>
               let s1 = s\<lparr>filteredFaqs := faqs\<rparr>;
                   s2 = s1\<lparr>filteredMessages := computeFilteredHistory toLowerCase s1 (lastQuery s1)\<rparr>
               in Inr (s2\<lparr>filterMatches := True\<rparr>))"

text \<open>The \<open>catch\<close> block and the \<open>finally\<close> block after it.\<close>

definition sendCatch :: "(jsString \<Rightarrow> jsString) \<Rightarrow> ChatboxComponent \<Rightarrow> sendResult" where
  "sendCatch toLowerCase s =
     (let s1 = s\<lparr>messages := messages s @ [errMsg]\<rparr>
      in case refilter toLowerCase s1 of
           Inl e \<Rightarrow> Threw e (s1\<lparr>sending := False\<rparr>)
         | Inr s2 \<Rightarrow> Returned (s2\<lparr>sending := False\<rparr>))"

text \<open>
  \<open>send\<close> from the moment the promise of \<open>ask\<close> settles: with a rejection reason
  (\<open>Inl\<close>) or with the response (\<open>Inr\<close>). An exception of the \<open>try\<close> block, also one of
  the re-evaluation, goes to the \<open>catch\<close> block.
\<close>

definition sendSettle ::
  "(jsString \<Rightarrow> jsString) \<Rightarrow> error + ChatMessage \<Rightarrow> ChatboxComponent \<Rightarrow> sendResult" where
  "sendSettle toLowerCase outcome s =
     (case outcome of
        Inl e \<Rightarrow> sendCatch toLowerCase s
      | Inr response \<Rightarrow>
          let s1 = s\<lparr>messages := messages s @ [response]\<rparr>
          in (case refilter toLowerCase s1 of
                Inl e' \<Rightarrow> sendCatch toLowerCase s1
              | Inr s2 \<Rightarrow> Returned (s2\<lparr>sending := False\<rparr>)))"

text \<open>What may happen to the panel while \<open>send\<close> waits.\<close>

datatype event =
    TopicEvent "jsString option"
  | ClearEvent
  | InputEvent jsString
  | SendEvent

fun panelOf :: "sendResult \<Rightarrow> ChatboxComponent" where
  "panelOf (Returned s) = s"
| "panelOf (Threw e s) = s"
| "panelOf (Awaiting s q t) = s"

fun applyEvent :: "(jsString \<Rightarrow> jsString) \<Rightarrow> event \<Rightarrow> ChatboxComponent \<Rightarrow> ChatboxComponent" where
  "applyEvent toLowerCase (TopicEvent t) s = onTopic t s"
| "applyEvent toLowerCase ClearEvent s = clear s"
| "applyEvent toLowerCase (InputEvent v) s = s\<lparr>input := v\<rparr>"
| "applyEvent toLowerCase SendEvent s = panelOf (sendBegin toLowerCase s)"

definition applyEvents ::
  "(jsString \<Rightarrow> jsString) \<Rightarrow> event list \<Rightarrow> ChatboxComponent \<Rightarrow> ChatboxComponent" where
  "applyEvents toLowerCase evs s = fold (applyEvent toLowerCase) evs s"

text \<open>
  One submit cycle: \<open>send\<close> on panel \<open>s\<close>, with \<open>rag\<close> the service's \<open>ask\<close> and
  \<open>evs\<close> the events that arrive while \<open>send\<close> waits. When the promise never settles the
  cycle stays \<open>Awaiting\<close>.
\<close>

definition send ::
  "(jsString \<Rightarrow> jsString) \<Rightarrow> (jsString \<Rightarrow> jsString option \<Rightarrow> ChatMessage promise) \<Rightarrow> event list \<Rightarrow> ChatboxComponent \<Rightarrow> sendResult"
where
  "send toLowerCase rag evs s =
     (case sendBegin toLowerCase s of
        Awaiting s1 q t \<Rightarrow>
          (case rag q t of
             Pending \<Rightarrow> Awaiting (applyEvents toLowerCase evs s1) q t
           | Fulfilled response \<Rightarrow> sendSettle toLowerCase (Inr response) (applyEvents toLowerCase evs s1)
           | Rejected e \<Rightarrow> sendSettle toLowerCase (Inl e) (applyEvents toLowerCase evs s1))
      | Returned s1 \<Rightarrow> Returned s1
      | Threw e s1 \<Rightarrow> Threw e s1)"

section \<open>The topic bridge (\<open>TopicsBridgeService\<close>)\<close>

text \<open>
  Modelled from the spec: the class \<open>BehaviorSubject\<close> that the service wraps belongs to
  the rxjs library and is not under src/. It is a single current-value channel: it holds
  the latest value, \<open>next\<close> publishes a value to every current subscriber, and subscribing
  yields the latest value at once. Each subscriber is represented by the list of the values
  it has observed, in subscription order.
\<close>

record 'a BehaviorSubject =
  currentValue :: 'a
  observed :: "'a list list"

text \<open>Modelled from the spec: \<open>new BehaviorSubject(v)\<close>, pre-seeded with \<open>v\<close>.\<close>

definition newBehaviorSubject :: "'a \<Rightarrow> 'a BehaviorSubject" where
  "newBehaviorSubject v = \<lparr>currentValue = v, observed = []\<rparr>"

text \<open>Modelled from the spec: \<open>subject.next(v)\<close>.\<close>

definition nextValue :: "'a \<Rightarrow> 'a BehaviorSubject \<Rightarrow> 'a BehaviorSubject" where
  "nextValue v b = b\<lparr>currentValue := v, observed := map (\<lambda>seen. seen @ [v]) (observed b)\<rparr>"

text \<open>Modelled from the spec: \<open>subject.subscribe(observer)\<close>.\<close>

definition subscribe :: "'a BehaviorSubject \<Rightarrow> 'a BehaviorSubject" where
  "subscribe b = b\<lparr>observed := observed b @ [[currentValue b]]\<rparr>"

record TopicsBridgeService =
  topicSubject :: "jsString option BehaviorSubject"

definition newTopicsBridgeService :: TopicsBridgeService where
  "newTopicsBridgeService = \<lparr>topicSubject = newBehaviorSubject (Some (str ''getting-started''))\<rparr>"

definition setTopic :: "jsString option \<Rightarrow> TopicsBridgeService \<Rightarrow> TopicsBridgeService" where
  "setTopic topic svc = svc\<lparr>topicSubject := nextValue topic (topicSubject svc)\<rparr>"

text \<open>\<open>topic$.subscribe(...)\<close>: the observable is the subject itself.\<close>

definition subscribeTopic :: "TopicsBridgeService \<Rightarrow> TopicsBridgeService" where
  "subscribeTopic svc = svc\<lparr>topicSubject := subscribe (topicSubject svc)\<rparr>"

datatype bridgeCall = SetTopic "jsString option" | Subscribe

fun bridgeStep :: "bridgeCall \<Rightarrow> TopicsBridgeService \<Rightarrow> TopicsBridgeService" where
  "bridgeStep (SetTopic t) svc = setTopic t svc"
| "bridgeStep Subscribe svc = subscribeTopic svc"

definition bridgeRun :: "bridgeCall list \<Rightarrow> TopicsBridgeService \<Rightarrow> TopicsBridgeService" where
  "bridgeRun calls svc = fold bridgeStep calls svc"

text \<open>The value published last by a sequence of calls, \<open>v\<close> when it publishes none.\<close>

fun lastPublished :: "jsString option \<Rightarrow> bridgeCall list \<Rightarrow> jsString option" where
  "lastPublished v [] = v"
| "lastPublished v (SetTopic t # calls) = lastPublished t calls"
| "lastPublished v (Subscribe # calls) = lastPublished v calls"

section \<open>The sidebar (\<open>SidebarTopicsComponent\<close>)\<close>

text \<open>
  The ids of the field \<open>topics\<close>. \<open>selectTopic\<close> is called from the template with
  the id of an entry of this list, and the application hands the id to \<open>setTopic\<close>: with
  the seed of the bridge, these are the topics that reach the panel.
\<close>

definition sidebarTopics :: "jsString list" where
  "sidebarTopics =
     [str ''getting-started'', str ''account'', str ''security'', str ''api'',
      str ''troubleshooting'']"

section \<open>Concrete hosts and panels\<close>

text \<open>A browser, whose \<open>setTimeout\<close> runs its callback, and a host without timers.\<close>

definition browser :: globalThis where
  "browser = \<lparr>setTimeout = Some hostSetTimeout\<rparr>"

definition timerless :: globalThis where
  "timerless = \<lparr>setTimeout = None\<rparr>"

text \<open>
  The panel as its field initialisers leave it, and as the constructor leaves it: the
  subscription to the bridge delivers the bridge's current topic at once.
\<close>

definition seedMessage :: ChatMessage where
  "seedMessage =
     \<lparr>role = Assistant,
      content = (str ''Hi! I'') @ [0xE2, 0x20AC, 0x2122] @
        (str ''m your AI FAQ assistant. Ask me anything or pick a topic from the left to get started.''),
      error = None\<rparr>"

definition initialPanel :: ChatboxComponent where
  "initialPanel =
     \<lparr>input = [], sending = False, messages = [seedMessage], activeTopic = None,
      filterFeedback = None, filterMatches = False, filteredMessages = [], filteredFaqs = [],
      lastQuery = []\<rparr>"

definition constructPanel :: "TopicsBridgeService \<Rightarrow> ChatboxComponent" where
  "constructPanel svc = onTopic (currentValue (topicSubject svc)) initialPanel"

section \<open>The service as the specification describes it\<close>

text \<open>
  The bucket as the specification words it: the one of the topic if it is present and
  non-empty, else the one of \<open>default\<close>.
\<close>

definition knowledgeBucket :: "jsString option \<Rightarrow> jsString list" where
  "knowledgeBucket topic =
     (let fallback = (case map_of mockKnowledgeBase (str ''default'') of Some b \<Rightarrow> b | None \<Rightarrow> [])
      in case topic of
           None \<Rightarrow> fallback
         | Some t \<Rightarrow>
             (case map_of mockKnowledgeBase t of
                Some b \<Rightarrow> if b \<noteq> [] then b else fallback
              | None \<Rightarrow> fallback))"

text \<open>
  Retrieval as the specification words it, with the character class that delimits the
  first token left open: keep the entries whose lower-case text contains the first token
  of the lower-case question; when none is kept, the first two entries of the bucket.
\<close>

definition retrievalClaim ::
  "(jsString \<Rightarrow> jsString) \<Rightarrow> (codeUnit \<Rightarrow> bool) \<Rightarrow> jsString \<Rightarrow> jsString option \<Rightarrow> jsString list" where
  "retrievalClaim toLowerCase delimiter question topic =
     (let bucket = knowledgeBucket topic;
          token = takeWhile (\<lambda>c. \<not> delimiter c) (toLowerCase question);
          kept = filter (\<lambda>entry. sublist token (toLowerCase entry)) bucket
      in if kept = [] then take 2 bucket else kept)"

text \<open>
  Tool selection as the specification words it: the first rule one of whose keywords occurs
  in the question, case-insensitively.
\<close>

definition mentions :: "jsString \<Rightarrow> jsString list \<Rightarrow> bool" where
  "mentions question keywords = (\<exists>k \<in> set keywords. sublist k (asciiLowerCase question))"

definition toolClaim :: "jsString \<Rightarrow> jsString" where
  "toolClaim question =
     (if mentions question [(str ''billing''), (str ''invoice''), (str ''payment'')] then (str ''billing.lookup'')
      else if mentions question [(str ''api''), (str ''key''), (str ''token''), (str ''rate'')] then (str ''api.docs.search'')
      else if mentions question [(str ''security''), (str ''mfa''), (str ''sso''), (str ''rbac'')] then (str ''security.policy.fetch'')
      else if mentions question [(str ''troubleshoot''), (str ''error''), (str ''issue'')] then (str ''diagnostics.helper'')
      else (str ''knowledge.search''))"

section \<open>The local filter view as the specification describes it\<close>



text \<open>
  A system message that records a change of the topic context: its text holds
  \<open>Context updated to topic\<close>, in any letter case.
\<close>

definition recordsTopicChange :: "ChatMessage \<Rightarrow> bool" where
  "recordsTopicChange m =
     (role m = System \<and>
      sublist (str ''context updated to topic'') (asciiLowerCase (ChatMessage.content m)))"


section \<open>Masking as the specification describes it\<close>

text \<open>
  A banned word as a whole word, as the specification words it: a run of characters that
  is a banned word up to letter case, with no word character before it and none after it.
\<close>

definition lastOpt :: "jsString \<Rightarrow> codeUnit option" where
  "lastOpt s = (if s = [] then None else Some (last s))"

definition wholeWord :: "codeUnit option \<Rightarrow> jsString \<Rightarrow> jsString \<Rightarrow> bool" where
  "wholeWord prev w post =
     (asciiLowerCase w \<in> set banned \<and> \<not> wordCharOpt prev \<and> \<not> wordCharOpt (headOpt post))"

definition containsBannedWord :: "jsString \<Rightarrow> bool" where
  "containsBannedWord s = (\<exists>pre w post. s = pre @ w @ post \<and> wholeWord (lastOpt pre) w post)"

text \<open>
  \<open>masking prev s out\<close>: \<open>out\<close> is \<open>s\<close> with each whole-word occurrence of a
  banned word replaced by the mask token and every other character kept; \<open>prev\<close> is
  the character before \<open>s\<close>.
\<close>

inductive masking :: "codeUnit option \<Rightarrow> jsString \<Rightarrow> jsString \<Rightarrow> bool" where
  finished: "masking prev [] []"
| kept: "\<not> (\<exists>w post. c # cs = w @ post \<and> wholeWord prev w post) \<Longrightarrow>
         masking (Some c) cs out \<Longrightarrow> masking prev (c # cs) (c # out)"
| replaced: "wholeWord prev w post \<Longrightarrow> masking (lastOpt w) post out \<Longrightarrow>
         masking prev (w @ post) (maskToken @ out)"

text \<open>The lookup in the FAQ catalog does not end on an inherited property.\<close>

definition faqLookupWorks :: "ChatboxComponent \<Rightarrow> bool" where
  "faqLookupWorks s =
     (getProperty faqCatalog (bucketKey faqCatalog (activeTopic s)) \<noteq> Inherited)"

section \<open>Invariants and examples used in the proofs\<close>

text \<open>Every subscriber has observed something, and the current value last.\<close>

definition bridgeInvariant :: "TopicsBridgeService \<Rightarrow> bool" where
  "bridgeInvariant svc =
     list_all (\<lambda>seen. seen \<noteq> [] \<and> last seen = currentValue (topicSubject svc))
       (observed (topicSubject svc))"

text \<open>
  The re-evaluation of the filters cannot throw: it is skipped, or the lookup in the FAQ
  catalog does not end on an inherited property.
\<close>

definition refilterSafe :: "ChatboxComponent \<Rightarrow> bool" where
  "refilterSafe s =
     (lastQuery s = [] \<or>
      getProperty faqCatalog (bucketKey faqCatalog (activeTopic s)) \<noteq> Inherited)"

text \<open>\<open>feedback && /masked/i.test(feedback)\<close>.\<close>

definition masked :: "FilterResult \<Rightarrow> bool" where
  "masked r = (case feedback r of None \<Rightarrow> False | Some f \<Rightarrow> f \<noteq> [] \<and> testAlternatives [(str ''masked'')] f)"

text \<open>A service whose call is rejected, and a panel with a question typed in.\<close>

definition failingService :: "jsString \<Rightarrow> jsString option \<Rightarrow> ChatMessage promise" where
  "failingService q t = Rejected TypeError"

definition helloPanel :: ChatboxComponent where
  "helloPanel = constructPanel newTopicsBridgeService\<lparr>input := (str ''hello'')\<rparr>"


section \<open>Facts about the string primitives\<close>

lemma str_eq_iff [simp]: "str a = str b \<longleftrightarrow> a = b"
proof -
  have "inj (of_char :: char \<Rightarrow> int)"
    by (rule injI) simp
  then show ?thesis
    unfolding str_def by (rule inj_map_eq_map)
qed

lemma str_Nil_iff [simp]: "str a = [] \<longleftrightarrow> a = []" "[] = str a \<longleftrightarrow> a = []"
  by (auto simp: str_def)

lemma includesStr_sublist: "includesStr s q \<longleftrightarrow> sublist q s"
  by (induction s) (auto simp: sublist_Cons_right)

lemma canonicalize_eq_iff:
  "canonicalize a = canonicalize b \<longleftrightarrow> asciiLowerChar a = asciiLowerChar b"
  by (auto simp: canonicalize_def asciiLowerChar_def)

lemma map_canonicalize_eq_iff:
  "map canonicalize xs = map canonicalize ys \<longleftrightarrow> map asciiLowerChar xs = map asciiLowerChar ys"
proof (induction xs arbitrary: ys)
  case Nil
  show ?case by simp
next
  case (Cons x xs)
  show ?case by (cases ys) (simp_all add: Cons.IH canonicalize_eq_iff)
qed

text \<open>A literal under the \<open>i\<close> flag matches where the lower-case forms agree.\<close>

lemma matchLiteral_iff:
  "matchLiteral p s \<noteq> None \<longleftrightarrow> prefix (asciiLowerCase p) (asciiLowerCase s)"
proof
  assume "matchLiteral p s \<noteq> None"
  then have eq: "map canonicalize (take (length p) s) = map canonicalize p"
    by (auto simp: matchLiteral_def split: if_splits)
  from eq have "map asciiLowerChar (take (length p) s) = map asciiLowerChar p"
    by (simp only: map_canonicalize_eq_iff)
  then have "asciiLowerCase s = asciiLowerCase p @ map asciiLowerChar (drop (length p) s)"
    unfolding asciiLowerCase_def by (metis append_take_drop_id map_append)
  then show "prefix (asciiLowerCase p) (asciiLowerCase s)"
    by (simp add: prefix_def)
next
  assume "prefix (asciiLowerCase p) (asciiLowerCase s)"
  then obtain zs where zs: "map asciiLowerChar s = map asciiLowerChar p @ zs"
    by (auto simp: prefix_def asciiLowerCase_def)
  then have "length s = length p + length zs"
    by (metis length_append length_map)
  then have len: "length p \<le> length s" by simp
  from zs have "take (length p) (map asciiLowerChar s) = map asciiLowerChar p"
    by simp
  then have "map asciiLowerChar (take (length p) s) = map asciiLowerChar p"
    by (simp add: take_map)
  then have "map canonicalize (take (length p) s) = map canonicalize p"
    by (simp only: map_canonicalize_eq_iff)
  with len show "matchLiteral p s \<noteq> None"
    by (simp add: matchLiteral_def)
qed

lemma testAlternatives_iff:
  "testAlternatives ps s \<longleftrightarrow> (\<exists>p \<in> set ps. sublist (asciiLowerCase p) (asciiLowerCase s))"
proof (induction s)
  case Nil
  show ?case by (auto simp: asciiLowerCase_def)
next
  case (Cons c cs)
  have "testAlternatives ps (c # cs) \<longleftrightarrow>
        (\<exists>p \<in> set ps. prefix (asciiLowerCase p) (asciiLowerCase (c # cs))) \<or> testAlternatives ps cs"
    by (simp only: testAlternatives.simps matchLiteral_iff)
  also have "\<dots> \<longleftrightarrow> (\<exists>p \<in> set ps. sublist (asciiLowerCase p) (asciiLowerCase (c # cs)))"
    unfolding Cons.IH by (auto simp: asciiLowerCase_def sublist_Cons_right)
  finally show ?case .
qed

lemma collapseWhitespace_all_white:
  assumes "\<forall>c \<in> set raw. isWhiteSpace c"
  shows "collapseWhitespace raw = (if raw = [] then [] else [32])"
proof (cases raw)
  case Nil
  then show ?thesis by simp
next
  case (Cons c cs)
  with assms have "isWhiteSpace c" and "\<forall>x \<in> set cs. isWhiteSpace x"
    by simp_all
  then have w: "isWhiteSpace c" and d: "dropWhile isWhiteSpace cs = []"
    by simp_all
  have "collapseWhitespace (c # cs) = (32::int) # collapseWhitespace (dropWhile isWhiteSpace cs)"
    using w by simp
  also have "\<dots> = [32]"
    unfolding d by simp
  finally show ?thesis
    using Cons by simp
qed

lemma trim_collapse_all_white:
  assumes "\<forall>c \<in> set raw. isWhiteSpace c"
  shows "trim (collapseWhitespace raw) = []"
proof -
  have "isWhiteSpace 32" by (simp add: isWhiteSpace_def)
  then show ?thesis
    by (simp add: collapseWhitespace_all_white [OF assms] trim_def)
qed

section \<open>Input sanitation\<close>

text \<open>
  C1. The claim: every accepted input has its angle brackets removed, also when a banned
  word was masked. The masking branch of \<open>filterInput\<close> returns before the brackets are
  stripped: on the input \<open>badword <b>\<close> the cleaned text still holds both brackets.
\<close>

theorem filterInput_masked_keeps_brackets:
  "filterInput (str ''badword <b>'') =
     \<lparr>cleaned = Some (str ''**** <b>''),
      feedback = Some (str ''Note: Certain words were masked for safety.'')\<rparr>"
  by code_simp

theorem filterInput_masked_keeps_brackets_witness:
  "(60::int) \<in> set (the (cleaned (filterInput (str ''badword <b>''))))"
  using filterInput_masked_keeps_brackets by (simp add: str_def)

text \<open>On the other branch, where no banned word is found, the brackets are gone.\<close>

lemma filterInput_unmasked_strips:
  assumes "\<not> bannedRegexTest None (trim (collapseWhitespace raw))"
    and "cleaned (filterInput raw) = Some out"
  shows "(60::int) \<notin> set out \<and> (62::int) \<notin> set out"
  using assms by (auto simp: filterInput_def Let_def stripAngleBrackets_def split: if_splits)

text \<open>
  C4, as amended. For a raw input of whitespace only, in the sense of \<open>\s\<close> and
  \<open>trim\<close> (or empty), \<open>filterInput\<close> yields no
  cleaned text and no feedback of its own; \<open>send\<close>, unless a submit is already in flight,
  sets the feedback "Please enter a question before sending." and returns: the transcript
  and every other field are unchanged, and \<open>ask\<close> is not called (the result is
  \<open>Returned\<close>, whatever the service \<open>rag\<close> is).
\<close>

theorem whitespace_input_rejected:
  assumes "\<forall>c \<in> set raw. isWhiteSpace c" and "input s = raw"
  shows "filterInput raw = \<lparr>cleaned = None, feedback = None\<rparr> \<and>
         sendBegin toLowerCase s =
           Returned (if sending s then s
                     else s\<lparr>filterFeedback := Some (str ''Please enter a question before sending.'')\<rparr>) \<and>
         send toLowerCase rag evs s = sendBegin toLowerCase s \<and>
         messages (panelOf (send toLowerCase rag evs s)) = messages s"
proof -
  have f: "filterInput raw = \<lparr>cleaned = None, feedback = None\<rparr>"
    by (simp add: filterInput_def trim_collapse_all_white [OF assms(1)])
  have b: "sendBegin toLowerCase s =
           Returned (if sending s then s
                     else s\<lparr>filterFeedback := Some (str ''Please enter a question before sending.'')\<rparr>)"
    by (simp add: sendBegin_def assms(2) f)
  have c: "send toLowerCase rag evs s = sendBegin toLowerCase s"
    by (simp add: send_def b)
  show ?thesis
    by (simp add: f c b)
qed

theorem whitespace_input_rejected_witness:
  "filterInput [0x20, 0x09, 0xA0, 0x2003, 0xFEFF] = \<lparr>cleaned = None, feedback = None\<rparr> \<and>
   send asciiLowerCase (ask asciiLowerCase browser 0) []
       (initialPanel\<lparr>input := [0x20, 0x09, 0xA0, 0x2003, 0xFEFF]\<rparr>) =
     Returned (initialPanel\<lparr>input := [0x20, 0x09, 0xA0, 0x2003, 0xFEFF],
                 filterFeedback := Some (str ''Please enter a question before sending.'')\<rparr>)"
proof -
  let ?raw = "[0x20, 0x09, 0xA0, 0x2003, 0xFEFF] :: jsString"
  let ?s = "initialPanel\<lparr>input := ?raw\<rparr>"
  have w: "\<forall>c \<in> set ?raw. isWhiteSpace c"
    by (simp add: isWhiteSpace_def)
  have i: "input ?s = ?raw"
    by simp
  have ns: "sending ?s = False"
    by (simp add: initialPanel_def)
  note t = whitespace_input_rejected [OF w i, where toLowerCase = asciiLowerCase
      and rag = "ask asciiLowerCase browser 0" and evs = "[]"]
  from t have f: "filterInput ?raw = \<lparr>cleaned = None, feedback = None\<rparr>"
    by (rule conjunct1)
  from t have b: "sendBegin asciiLowerCase ?s =
      Returned (if sending ?s then ?s
                else ?s\<lparr>filterFeedback := Some (str ''Please enter a question before sending.'')\<rparr>)"
    by (rule conjunct1 [OF conjunct2])
  from t have c: "send asciiLowerCase (ask asciiLowerCase browser 0) [] ?s =
      sendBegin asciiLowerCase ?s"
    by (rule conjunct1 [OF conjunct2 [OF conjunct2]])
  have "send asciiLowerCase (ask asciiLowerCase browser 0) [] ?s =
      Returned (?s\<lparr>filterFeedback := Some (str ''Please enter a question before sending.'')\<rparr>)"
    unfolding c b ns by (simp only: if_False)
  with f show ?thesis by (rule conjI)
qed

text \<open>
  The claim as stated has \<open>filterInput\<close> itself return the rejection feedback; it returns
  none.
\<close>

theorem filterInput_rejection_feedback_counterexample:
  "feedback (filterInput (str ''   '')) \<noteq> Some (str ''Please enter a question before sending.'')"
  by code_simp

section \<open>The service\<close>

lemma delay_timerless: "setTimeout g = None \<Longrightarrow> delay g ms = Pending"
  by (simp add: delay_def noop_def)

lemma delay_browser: "setTimeout g = Some hostSetTimeout \<Longrightarrow> delay g ms = Fulfilled ()"
  by (simp add: delay_def hostSetTimeout_def)

text \<open>
  C10. When the host provides no \<open>setTimeout\<close>, the promise of \<open>delay\<close> never
  settles, for every duration; the retrieval step waits for it first, so no call of \<open>ask\<close>
  ever settles either.
\<close>

theorem ask_never_settles_without_setTimeout:
  assumes "setTimeout g = None"
  shows "delay g ms = Pending \<and> retrieveFromChroma toLowerCase g question topic = Pending \<and>
         ask toLowerCase g rnd question topic = Pending"
  by (simp add: ask_def retrieveFromChroma_def await_def delay_timerless [OF assms])

theorem ask_never_settles_without_setTimeout_witness:
  "delay timerless 200 = Pending \<and>
   ask asciiLowerCase timerless 0 (str ''What are the rate limits?'') (Some (str ''api'')) = Pending"
  using ask_never_settles_without_setTimeout [where g = timerless and ms = 200
      and toLowerCase = asciiLowerCase and question = "str ''What are the rate limits?''"
      and topic = "Some (str ''api'')" and rnd = 0]
  by (simp add: timerless_def)

lemma browser_timer: "setTimeout browser = Some hostSetTimeout"
  by (simp add: browser_def)

lemma api_not_inherited: "Some (str ''api'') \<notin> Some ` set objectPrototypeNames"
  by (simp add: objectPrototypeNames_def)

lemma kb_entries: "(t, b) \<in> set mockKnowledgeBase \<Longrightarrow> length b = 2 \<and> t \<noteq> []"
  by (auto simp: mockKnowledgeBase_def)

lemma kb_lookup: "map_of mockKnowledgeBase t = Some b \<Longrightarrow> length b = 2 \<and> t \<noteq> []"
  by (rule kb_entries) (rule map_of_SomeD)

lemma default_bucket:
  "getProperty mockKnowledgeBase (str ''default'') = Own (knowledgeBucket None)"
  by (simp add: getProperty_def mockKnowledgeBase_def knowledgeBucket_def)

lemma bucket_selected:
  assumes "topic \<notin> Some ` set objectPrototypeNames"
  shows "getProperty mockKnowledgeBase (bucketKey mockKnowledgeBase topic) = Own (knowledgeBucket topic)"
proof (cases topic)
  case None
  then show ?thesis by (simp add: bucketKey_def default_bucket)
next
  case (Some t)
  with assms have t: "t \<notin> set objectPrototypeNames" by auto
  show ?thesis
  proof (cases "map_of mockKnowledgeBase t")
    case None
    with t have "getProperty mockKnowledgeBase t = Undefined"
      by (simp add: getProperty_def)
    moreover from None have "knowledgeBucket (Some t) = knowledgeBucket None"
      by (simp add: knowledgeBucket_def)
    ultimately show ?thesis
      using Some by (simp add: bucketKey_def default_bucket)
  next
    case (Some b)
    then have own: "getProperty mockKnowledgeBase t = Own b"
      by (simp add: getProperty_def)
    from kb_lookup [OF Some] have "b \<noteq> []" and "t \<noteq> []"
      by auto
    with Some own \<open>topic = Some t\<close> show ?thesis
      by (simp add: bucketKey_def knowledgeBucket_def)
  qed
qed

lemma knowledgeBucket_two: "length (knowledgeBucket topic) = 2"
proof -
  have d: "length (knowledgeBucket None) = 2"
    by (simp add: knowledgeBucket_def mockKnowledgeBase_def)
  show ?thesis
  proof (cases topic)
    case None
    with d show ?thesis by simp
  next
    case (Some t)
    show ?thesis
    proof (cases "map_of mockKnowledgeBase t")
      case None
      then have "knowledgeBucket (Some t) = knowledgeBucket None"
        by (simp add: knowledgeBucket_def)
      with d Some show ?thesis by simp
    next
      case (Some b)
      from kb_lookup [OF Some] have "length b = 2" by simp
      moreover from this have "b \<noteq> []" by auto
      ultimately show ?thesis
        using Some \<open>topic = Some t\<close> by (simp add: knowledgeBucket_def)
    qed
  qed
qed

lemma retrieveFromChroma_fulfilled:
  assumes "setTimeout g = Some hostSetTimeout" and "topic \<notin> Some ` set objectPrototypeNames"
  shows "retrieveFromChroma toLowerCase g question topic =
           Fulfilled (retrievalClaim toLowerCase (\<lambda>c. c = (32::int)) question topic)"
  by (simp add: retrieveFromChroma_def await_def delay_browser [OF assms(1)]
      bucket_selected [OF assms(2)] retrievalClaim_def firstToken_def includesStr_sublist Let_def)


lemma knowledgeBase_ascii: "list_all (\<lambda>(t, b). list_all isAscii b) mockKnowledgeBase"
  by code_simp

lemma knowledgeBucket_ascii:
  assumes "e \<in> set (knowledgeBucket topic)"
  shows "isAscii e"
proof -
  have kb: "isAscii x" if "map_of mockKnowledgeBase t = Some b" and "x \<in> set b" for t b x
    using knowledgeBase_ascii map_of_SomeD [OF that(1)] that(2)
    by (auto simp: list_all_iff)
  from assms show ?thesis
    by (auto simp: knowledgeBucket_def Let_def kb kb [OF sym] split: option.splits if_splits)
qed

text \<open>
  The knowledge base is ASCII text: for an ASCII question, retrieval does not depend on
  what \<open>toLowerCase\<close> does outside ASCII.
\<close>

lemma retrievalClaim_lowered:
  assumes "lowersAscii lower"
  shows "retrievalClaim lower delimiter question topic =
         (let token = takeWhile (\<lambda>c. \<not> delimiter c) (lower question);
              kept = filter (\<lambda>entry. sublist token (asciiLowerCase entry)) (knowledgeBucket topic)
          in if kept = [] then take 2 (knowledgeBucket topic) else kept)"
proof -
  have "lower e = asciiLowerCase e" if "e \<in> set (knowledgeBucket topic)" for e
    using assms knowledgeBucket_ascii [OF that] by (simp add: lowersAscii_def)
  then have "filter (\<lambda>entry. sublist tok (lower entry)) (knowledgeBucket topic) =
             filter (\<lambda>entry. sublist tok (asciiLowerCase entry)) (knowledgeBucket topic)" for tok
    by (intro filter_cong) simp_all
  then show ?thesis
    by (simp add: retrievalClaim_def Let_def)
qed

lemma retrievalClaim_ascii:
  assumes "lowersAscii lower" and "isAscii question"
  shows "retrievalClaim lower delimiter question topic =
         retrievalClaim asciiLowerCase delimiter question topic"
proof -
  from assms have q: "lower question = asciiLowerCase question"
    by (simp add: lowersAscii_def)
  have a: "lowersAscii asciiLowerCase"
    by (simp add: lowersAscii_def)
  show ?thesis
    by (simp only: retrievalClaim_lowered [OF assms(1)] retrievalClaim_lowered [OF a] q)
qed

text \<open>
  Outside ASCII the lower-case form is the platform's: \<open>toLowerCase\<close> maps U+212A
  KELVIN SIGN to \<open>k\<close>, and the question U+212A \<open>eys\<close> on topic \<open>api\<close> retrieves
  the entry about API keys alone.
\<close>

lemma retrieval_kelvin:
  assumes "lowersAscii lower" and "lower [0x212A, 101, 121, 115] = str ''keys''"
  shows "retrieveFromChroma lower browser [0x212A, 101, 121, 115] (Some (str ''api'')) =
           Fulfilled [str ''Use API keys from Settings > API to authenticate your requests.'']"
proof -
  have "(let token = takeWhile (\<lambda>c. \<not> c = (32::int)) (str ''keys'');
             kept = filter (\<lambda>entry. sublist token (asciiLowerCase entry))
                      (knowledgeBucket (Some (str ''api'')))
         in if kept = [] then take 2 (knowledgeBucket (Some (str ''api''))) else kept) =
        [str ''Use API keys from Settings > API to authenticate your requests.'']"
    by code_simp
  then show ?thesis
    by (simp only: retrieveFromChroma_fulfilled [OF browser_timer api_not_inherited]
        retrievalClaim_lowered [OF assms(1)] assms(2))
qed

text \<open>
  C2, as amended. On a host whose timer runs, for every question and every topic that
  is not the name of a property inherited from \<open>Object.prototype\<close>, whatever
  \<open>toLowerCase\<close> does, retrieval returns what the specification describes, the first
  token being what stands before the first SPACE character (U+0020) of the lower-case
  question; the result is never empty.
\<close>

theorem retrieval_result:
  assumes "setTimeout g = Some hostSetTimeout" and "topic \<notin> Some ` set objectPrototypeNames"
  shows "retrieveFromChroma toLowerCase g question topic =
           Fulfilled (retrievalClaim toLowerCase (\<lambda>c. c = (32::int)) question topic) \<and>
         retrievalClaim toLowerCase (\<lambda>c. c = (32::int)) question topic \<noteq> []"
proof -
  have "retrievalClaim toLowerCase (\<lambda>c. c = (32::int)) question topic \<noteq> []"
    using knowledgeBucket_two [of topic] by (auto simp: retrievalClaim_def Let_def)
  with retrieveFromChroma_fulfilled [OF assms] show ?thesis by simp
qed

theorem retrieval_result_witness:
  "retrieveFromChroma asciiLowerCase browser (str ''rate limits'') (Some (str ''api'')) =
     Fulfilled [str ''Rate limiting is enforced at 60 requests per minute.'']"
proof -
  have d: "retrievalClaim asciiLowerCase (\<lambda>c. c = (32::int)) (str ''rate limits'') (Some (str ''api'')) =
           [str ''Rate limiting is enforced at 60 requests per minute.'']"
    by code_simp
  show ?thesis
    using retrieval_result [OF browser_timer api_not_inherited, where toLowerCase = asciiLowerCase
        and question = "str ''rate limits''"]
    by (simp add: d)
qed

text \<open>
  With the token delimited by whitespace, as the claim has it, the question
  \<open>rate<TAB>limits\<close> on topic \<open>api\<close> would retrieve the rate-limit entry alone; the code
  splits at spaces only, finds no entry containing \<open>rate<TAB>limits\<close> and falls back to
  the first two entries. This is so for every \<open>toLowerCase\<close> that lowers ASCII text as
  the platform's does.
\<close>

theorem retrieval_whitespace_token_counterexample:
  "retrieveFromChroma asciiLowerCase browser (str ''rate'' @ [9] @ str ''limits'') (Some (str ''api'')) =
     Fulfilled [str ''Use API keys from Settings > API to authenticate your requests.'',
                str ''Rate limiting is enforced at 60 requests per minute.''] \<and>
   retrievalClaim asciiLowerCase isWhiteSpace (str ''rate'' @ [9] @ str ''limits'') (Some (str ''api'')) =
     [str ''Rate limiting is enforced at 60 requests per minute.''] \<and>
   lowersAscii asciiLowerCase \<and>
   (\<forall>lower. \<not> (lowersAscii lower \<and>
      retrieveFromChroma lower browser (str ''rate'' @ [9] @ str ''limits'') (Some (str ''api'')) =
        Fulfilled (retrievalClaim lower isWhiteSpace (str ''rate'' @ [9] @ str ''limits'')
          (Some (str ''api'')))))"
proof -
  let ?q = "str ''rate'' @ [9] @ str ''limits''"
  let ?t = "Some (str ''api'')"
  have a: "isAscii ?q"
    by code_simp
  have c: "retrievalClaim asciiLowerCase (\<lambda>c. c = (32::int)) ?q ?t =
           [str ''Use API keys from Settings > API to authenticate your requests.'',
            str ''Rate limiting is enforced at 60 requests per minute.'']"
    by code_simp
  have w: "retrievalClaim asciiLowerCase isWhiteSpace ?q ?t =
           [str ''Rate limiting is enforced at 60 requests per minute.'']"
    by code_simp
  have r: "retrieveFromChroma lower browser ?q ?t =
           Fulfilled [str ''Use API keys from Settings > API to authenticate your requests.'',
                      str ''Rate limiting is enforced at 60 requests per minute.'']"
    if "lowersAscii lower" for lower
    by (simp only: retrieveFromChroma_fulfilled [OF browser_timer api_not_inherited]
        retrievalClaim_ascii [OF that a] c)
  have l: "lowersAscii asciiLowerCase"
    by (simp add: lowersAscii_def)
  have n: "\<not> (lowersAscii lower \<and>
      retrieveFromChroma lower browser ?q ?t = Fulfilled (retrievalClaim lower isWhiteSpace ?q ?t))"
    for lower
  proof
    assume h: "lowersAscii lower \<and>
      retrieveFromChroma lower browser ?q ?t = Fulfilled (retrievalClaim lower isWhiteSpace ?q ?t)"
    then have la: "lowersAscii lower" by (rule conjunct1)
    from h have "retrieveFromChroma lower browser ?q ?t =
        Fulfilled (retrievalClaim lower isWhiteSpace ?q ?t)" by (rule conjunct2)
    then have "[str ''Use API keys from Settings > API to authenticate your requests.'',
                str ''Rate limiting is enforced at 60 requests per minute.''] =
               [str ''Rate limiting is enforced at 60 requests per minute.'']"
      by (simp only: r [OF la] retrievalClaim_ascii [OF la a] w promise.inject)
    then show False by simp
  qed
  from r [OF l] w l n show ?thesis by blast
qed

lemma asciiLowerCase_keywords:
  "map asciiLowerCase [str ''billing'', str ''invoice'', str ''payment''] =
     [str ''billing'', str ''invoice'', str ''payment'']"
  "map asciiLowerCase [str ''api'', str ''key'', str ''token'', str ''rate''] =
     [str ''api'', str ''key'', str ''token'', str ''rate'']"
  "map asciiLowerCase [str ''security'', str ''mfa'', str ''sso'', str ''rbac''] =
     [str ''security'', str ''mfa'', str ''sso'', str ''rbac'']"
  "map asciiLowerCase [str ''troubleshoot'', str ''error'', str ''issue''] =
     [str ''troubleshoot'', str ''error'', str ''issue'']"
  by (simp_all add: asciiLowerCase_def asciiLowerChar_def str_def)

lemma testAlternatives_mentions:
  "map asciiLowerCase ks = ks \<Longrightarrow> testAlternatives ks question = mentions question ks"
proof -
  assume a: "map asciiLowerCase ks = ks"
  have "(\<exists>p \<in> set ks. sublist (asciiLowerCase p) (asciiLowerCase question)) =
        (\<exists>p \<in> set (map asciiLowerCase ks). sublist p (asciiLowerCase question))"
    by simp
  then show ?thesis
    unfolding testAlternatives_iff mentions_def a .
qed

lemma selectMcpTool_toolClaim: "selectMcpTool question = toolClaim question"
  unfolding selectMcpTool_def toolClaim_def
  by (simp only: testAlternatives_mentions [OF asciiLowerCase_keywords(1)]
      testAlternatives_mentions [OF asciiLowerCase_keywords(2)]
      testAlternatives_mentions [OF asciiLowerCase_keywords(3)]
      testAlternatives_mentions [OF asciiLowerCase_keywords(4)])

lemma ask_fulfilled:
  assumes "setTimeout g = Some hostSetTimeout" and "topic \<notin> Some ` set objectPrototypeNames"
  shows "ask toLowerCase g rnd question topic =
           Fulfilled
             \<lparr>role = Assistant,
              content = synthesizeAnswer question
                (retrievalClaim toLowerCase (\<lambda>c. c = (32::int)) question topic) (selectMcpTool question),
              error = None\<rparr>"
  by (simp add: ask_def retrieveFromChroma_fulfilled [OF assms] await_def
      delay_browser [OF assms(1)] Let_def)

text \<open>
  C3, as amended. On a host whose timer runs, for every question and every topic that is
  not the name of a property inherited from \<open>Object.prototype\<close>, whatever
  \<open>toLowerCase\<close> does, \<open>ask\<close> is fulfilled with an assistant message without error
  flag whose content is the template of the source, with U+2019 in \<open>Here's\<close> and each
  snippet on a line of its own behind U+2022 and a space; the tool is that of the first
  rule one of whose keywords occurs in the question, upper and lower case of \<open>A\<close> to
  \<open>Z\<close> identified; the snippets are the retrieved ones in order.
\<close>

theorem ask_answer:
  assumes "setTimeout g = Some hostSetTimeout" and "topic \<notin> Some ` set objectPrototypeNames"
  shows "ask toLowerCase g rnd question topic =
           Fulfilled
             \<lparr>role = Assistant,
              content =
                str ''Here'' @ rsquo @ str ''s what I found using '' @ toolClaim question @ str '':'' @ lf @
                joinWith lf (map (\<lambda>d. bullet @ str '' '' @ d)
                  (retrievalClaim toLowerCase (\<lambda>c. c = (32::int)) question topic)) @ lf @ lf @
                str ''If you need more details, feel free to ask or refine by selecting a topic.'',
              error = None\<rparr>"
  by (simp add: ask_fulfilled [OF assms] synthesizeAnswer_def selectMcpTool_toolClaim Let_def)

theorem ask_answer_witness:
  "ask asciiLowerCase browser 0 (str ''What are the rate limits?'') (Some (str ''api'')) =
     Fulfilled
       \<lparr>role = Assistant,
        content =
          str ''Here'' @ rsquo @ str ''s what I found using api.docs.search:'' @ lf @
          bullet @ str '' Use API keys from Settings > API to authenticate your requests.'' @ lf @
          bullet @ str '' Rate limiting is enforced at 60 requests per minute.'' @ lf @ lf @
          str ''If you need more details, feel free to ask or refine by selecting a topic.'',
        error = None\<rparr>"
proof -
  have t: "toolClaim (str ''What are the rate limits?'') = str ''api.docs.search''"
    by code_simp
  have d: "retrievalClaim asciiLowerCase (\<lambda>c. c = (32::int)) (str ''What are the rate limits?'')
             (Some (str ''api'')) =
           [str ''Use API keys from Settings > API to authenticate your requests.'',
            str ''Rate limiting is enforced at 60 requests per minute.'']"
    by code_simp
  show ?thesis
    using ask_answer [OF browser_timer api_not_inherited, where rnd = 0
        and toLowerCase = asciiLowerCase and question = "str ''What are the rate limits?''"]
    unfolding t d by (simp add: str_def)
qed

text \<open>
  The claim as stated fails on a host without \<open>setTimeout\<close>, where \<open>ask\<close> returns
  nothing, and the content never starts with the ASCII apostrophe form \<open>Here's\<close>;
  both whatever \<open>toLowerCase\<close> does.
\<close>

theorem ask_returns_counterexample:
  "\<forall>lower.
     ask lower timerless 0 (str ''What are the rate limits?'') (Some (str ''api'')) = Pending \<and>
     (case ask lower browser 0 (str ''What are the rate limits?'') (Some (str ''api'')) of
        Fulfilled m \<Rightarrow> take 6 (ChatMessage.content m) | Pending \<Rightarrow> [] | Rejected e \<Rightarrow> []) \<noteq>
       str ''Here's''"
proof
  fix lower
  have "setTimeout timerless = None" by (simp add: timerless_def)
  then have a: "ask lower timerless 0 (str ''What are the rate limits?'') (Some (str ''api'')) = Pending"
    by (simp add: ask_def retrieveFromChroma_def await_def delay_timerless)
  show "ask lower timerless 0 (str ''What are the rate limits?'') (Some (str ''api'')) = Pending \<and>
     (case ask lower browser 0 (str ''What are the rate limits?'') (Some (str ''api'')) of
        Fulfilled m \<Rightarrow> take 6 (ChatMessage.content m) | Pending \<Rightarrow> [] | Rejected e \<Rightarrow> []) \<noteq>
       str ''Here's''"
    by (simp only: a ask_fulfilled [OF browser_timer api_not_inherited] promise.case
        ChatMessage.select_convs)
      (simp add: synthesizeAnswer_def rsquo_def str_def)
qed

text \<open>
  A topic that names a property inherited from \<open>Object.prototype\<close> passes the truthiness
  test of the bucket lookup, and \<open>base.filter\<close> is then a call of \<open>undefined\<close>. No such
  topic is an id of the sidebar or the seed of the bridge.
\<close>

lemma ask_inherited_topic_rejects:
  "ask toLowerCase browser rnd question (Some (str ''constructor'')) = Rejected TypeError"
proof -
  have "getProperty mockKnowledgeBase (str ''constructor'') = Inherited"
    by (simp add: getProperty_def mockKnowledgeBase_def objectPrototypeNames_def str_def)
  moreover have "str ''constructor'' \<noteq> []"
    by (simp add: str_def)
  ultimately show ?thesis
    by (simp add: ask_def retrieveFromChroma_def await_def delay_browser [OF browser_timer]
        bucketKey_def)
qed

lemma ask_undefined_topic:
  assumes "getProperty mockKnowledgeBase t = Undefined"
  shows "ask toLowerCase g rnd question (Some t) = ask toLowerCase g rnd question None"
  using assms by (simp add: ask_def retrieveFromChroma_def bucketKey_def)

text \<open>
  C6. The topic \<open>unknown-id\<close> has no bucket: the lookup of \<open>ask\<close> selects the key
  \<open>default\<close> for it, as it does when there is no topic, and that key holds the two
  entries of the default bucket. For every question, the two calls have the same outcome
  on every host, retrieval and answer; in a browser, whatever the random draws of the two
  calls are, both are fulfilled with the same assistant message, whose content is the
  answer synthesised from what retrieval keeps of the default bucket (the entries whose
  lower-case text contains the first token of the lower-case question, both entries when
  there is none).
\<close>

theorem ask_unknown_topic_same_as_default:
  "(let bucket = [str ''I can help with getting started, account & billing, security, API & integrations, and troubleshooting.'',
                  str ''Please ask a question or select a topic.''];
        kept = filter (\<lambda>s. sublist (firstToken (toLowerCase question)) (toLowerCase s)) bucket;
        docs = (if kept = [] then bucket else kept);
        answer = \<lparr>role = Assistant,
                  content = synthesizeAnswer question docs (selectMcpTool question),
                  error = None\<rparr>
    in bucketKey mockKnowledgeBase (Some (str ''unknown-id'')) = str ''default'' \<and>
       bucketKey mockKnowledgeBase None = str ''default'' \<and>
       getProperty mockKnowledgeBase (str ''default'') = Own bucket \<and>
       retrieveFromChroma toLowerCase g question (Some (str ''unknown-id'')) =
         retrieveFromChroma toLowerCase g question None \<and>
       ask toLowerCase g rnd question (Some (str ''unknown-id'')) =
         ask toLowerCase g rnd question None \<and>
       retrieveFromChroma toLowerCase browser question (Some (str ''unknown-id'')) = Fulfilled docs \<and>
       retrieveFromChroma toLowerCase browser question None = Fulfilled docs \<and>
       docs \<noteq> [] \<and>
       ask toLowerCase browser rnd question (Some (str ''unknown-id'')) = Fulfilled answer \<and>
       ask toLowerCase browser rnd' question None = Fulfilled answer)"
proof -
  let ?bucket = "[str ''I can help with getting started, account & billing, security, API & integrations, and troubleshooting.'',
                  str ''Please ask a question or select a topic.'']"
  let ?kept = "filter (\<lambda>s. sublist (firstToken (toLowerCase question)) (toLowerCase s)) ?bucket"
  let ?docs = "if ?kept = [] then ?bucket else ?kept"
  have u: "getProperty mockKnowledgeBase (str ''unknown-id'') = Undefined"
    by (simp add: getProperty_def mockKnowledgeBase_def objectPrototypeNames_def str_def)
  have k1: "bucketKey mockKnowledgeBase (Some (str ''unknown-id'')) = str ''default''"
    by (simp add: bucketKey_def u)
  have k2: "bucketKey mockKnowledgeBase None = str ''default''"
    by (simp add: bucketKey_def)
  have p: "getProperty mockKnowledgeBase (str ''default'') = Own ?bucket"
    by (simp add: getProperty_def mockKnowledgeBase_def str_def)
  have r: "retrieveFromChroma toLowerCase h question (Some (str ''unknown-id'')) =
           retrieveFromChroma toLowerCase h question None" for h
    by (simp add: retrieveFromChroma_def k1 k2)
  have rb: "retrieveFromChroma toLowerCase browser question None = Fulfilled ?docs"
    by (simp add: retrieveFromChroma_def k2 p await_def delay_browser [OF browser_timer]
        includesStr_sublist Let_def)
  have ne: "?docs \<noteq> []"
    by simp
  have ab: "ask toLowerCase browser r' question None =
            Fulfilled \<lparr>role = Assistant,
                       content = synthesizeAnswer question ?docs (selectMcpTool question),
                       error = None\<rparr>" for r'
    by (simp add: ask_def rb await_def delay_browser [OF browser_timer] Let_def)
  show ?thesis
    unfolding Let_def
    by (intro conjI k1 k2 p r ask_undefined_topic [OF u] ne ab rb)
      (simp_all only: r ask_undefined_topic [OF u] rb ab)
qed

theorem ask_unknown_topic_same_as_default_witness:
  "ask asciiLowerCase browser 0 (str ''hello'') (Some (str ''unknown-id'')) =
     Fulfilled
       \<lparr>role = Assistant,
        content =
          str ''Here'' @ rsquo @ str ''s what I found using knowledge.search:'' @ lf @
          bullet @ str '' I can help with getting started, account & billing, security, API & integrations, and troubleshooting.'' @ lf @
          bullet @ str '' Please ask a question or select a topic.'' @ lf @ lf @
          str ''If you need more details, feel free to ask or refine by selecting a topic.'',
        error = None\<rparr> \<and>
   ask asciiLowerCase browser (1/2) (str ''hello'') None =
     ask asciiLowerCase browser 0 (str ''hello'') (Some (str ''unknown-id''))"
proof -
  let ?bucket = "[str ''I can help with getting started, account & billing, security, API & integrations, and troubleshooting.'',
                  str ''Please ask a question or select a topic.'']"
  have k: "filter (\<lambda>s. sublist (firstToken (asciiLowerCase (str ''hello''))) (asciiLowerCase s)) ?bucket = []"
    by code_simp
  have t: "selectMcpTool (str ''hello'') = str ''knowledge.search''"
    by code_simp
  note c = ask_unknown_topic_same_as_default [where toLowerCase = asciiLowerCase
      and question = "str ''hello''" and g = browser and rnd = 0 and rnd' = "1/2",
      unfolded Let_def]
  note c9 = c [THEN conjunct2, THEN conjunct2, THEN conjunct2, THEN conjunct2, THEN conjunct2,
      THEN conjunct2, THEN conjunct2, THEN conjunct2, THEN conjunct1]
  note c10 = c [THEN conjunct2, THEN conjunct2, THEN conjunct2, THEN conjunct2, THEN conjunct2,
      THEN conjunct2, THEN conjunct2, THEN conjunct2, THEN conjunct2]
  have s: "synthesizeAnswer (str ''hello'') ?bucket (str ''knowledge.search'') =
          str ''Here'' @ rsquo @ str ''s what I found using knowledge.search:'' @ lf @
          bullet @ str '' I can help with getting started, account & billing, security, API & integrations, and troubleshooting.'' @ lf @
          bullet @ str '' Please ask a question or select a topic.'' @ lf @ lf @
          str ''If you need more details, feel free to ask or refine by selecting a topic.''"
    by (simp add: synthesizeAnswer_def str_def)
  have e1: "ask asciiLowerCase browser 0 (str ''hello'') (Some (str ''unknown-id'')) =
     Fulfilled
       \<lparr>role = Assistant,
        content = synthesizeAnswer (str ''hello'') ?bucket (str ''knowledge.search''),
        error = None\<rparr>"
    using c9 unfolding k t by simp
  have e2: "ask asciiLowerCase browser (1/2) (str ''hello'') None =
     Fulfilled
       \<lparr>role = Assistant,
        content = synthesizeAnswer (str ''hello'') ?bucket (str ''knowledge.search''),
        error = None\<rparr>"
    using c10 unfolding k t by simp
  show ?thesis
    unfolding e1 e2 s by simp
qed
section \<open>The topic bridge is a current-value channel\<close>

lemma bridgeInvariant_new: "bridgeInvariant newTopicsBridgeService"
  by (simp add: bridgeInvariant_def newTopicsBridgeService_def newBehaviorSubject_def)

lemma bridgeInvariant_step: "bridgeInvariant svc \<Longrightarrow> bridgeInvariant (bridgeStep call svc)"
  by (cases call)
     (auto simp: bridgeInvariant_def setTopic_def subscribeTopic_def nextValue_def subscribe_def
        list_all_iff)

lemma bridgeInvariant_run: "bridgeInvariant svc \<Longrightarrow> bridgeInvariant (bridgeRun calls svc)"
  unfolding bridgeRun_def
  by (induction calls arbitrary: svc) (simp_all add: bridgeInvariant_step)

lemma currentValue_step:
  "currentValue (topicSubject (bridgeStep call svc)) =
     lastPublished (currentValue (topicSubject svc)) [call]"
  by (cases call) (simp_all add: setTopic_def subscribeTopic_def nextValue_def subscribe_def)

lemma currentValue_run:
  "currentValue (topicSubject (bridgeRun calls svc)) =
     lastPublished (currentValue (topicSubject svc)) calls"
  unfolding bridgeRun_def
proof (induction calls arbitrary: svc)
  case Nil
  show ?case by simp
next
  case (Cons call calls)
  show ?case
    by (cases call) (simp_all add: Cons.IH setTopic_def subscribeTopic_def nextValue_def subscribe_def)
qed

text \<open>
  C9. The bridge starts with the value \<open>getting-started\<close>. After any sequence of
  \<open>setTopic\<close> calls and subscriptions, the current value is the one published last
  (the seed when none was), every subscriber has observed it as its latest value, and a
  subscriber created then observes exactly that value at once.
\<close>

theorem bridge_latest_value:
  "currentValue (topicSubject newTopicsBridgeService) = Some (str ''getting-started'') \<and>
   currentValue (topicSubject (bridgeRun calls newTopicsBridgeService)) =
     lastPublished (Some (str ''getting-started'')) calls \<and>
   (\<forall>seen \<in> set (observed (topicSubject (bridgeRun calls newTopicsBridgeService))).
      seen \<noteq> [] \<and> last seen = lastPublished (Some (str ''getting-started'')) calls) \<and>
   last (observed (topicSubject (subscribeTopic (bridgeRun calls newTopicsBridgeService)))) =
     [lastPublished (Some (str ''getting-started'')) calls]"
proof -
  have c0: "currentValue (topicSubject newTopicsBridgeService) = Some (str ''getting-started'')"
    by (simp add: newTopicsBridgeService_def newBehaviorSubject_def)
  have c: "currentValue (topicSubject (bridgeRun calls newTopicsBridgeService)) =
     lastPublished (Some (str ''getting-started'')) calls"
    by (simp add: currentValue_run c0)
  have "bridgeInvariant (bridgeRun calls newTopicsBridgeService)"
    by (rule bridgeInvariant_run) (rule bridgeInvariant_new)
  then have i: "\<forall>seen \<in> set (observed (topicSubject (bridgeRun calls newTopicsBridgeService))).
      seen \<noteq> [] \<and> last seen = lastPublished (Some (str ''getting-started'')) calls"
    by (simp add: bridgeInvariant_def list_all_iff c)
  have n: "last (observed (topicSubject (subscribeTopic (bridgeRun calls newTopicsBridgeService)))) =
     [lastPublished (Some (str ''getting-started'')) calls]"
    by (simp add: subscribeTopic_def subscribe_def c)
  from c0 c i n show ?thesis by blast
qed

theorem bridge_latest_value_witness:
  "observed (topicSubject (bridgeRun [Subscribe, SetTopic (Some (str ''api'')), Subscribe,
      SetTopic (Some (str ''security''))] newTopicsBridgeService)) =
     [[Some (str ''getting-started''), Some (str ''api''), Some (str ''security'')], [Some (str ''api''), Some (str ''security'')]] \<and>
   last (observed (topicSubject (subscribeTopic (bridgeRun [Subscribe, SetTopic (Some (str ''api'')), Subscribe,
      SetTopic (Some (str ''security''))] newTopicsBridgeService)))) = [Some (str ''security'')]"
proof -
  have "observed (topicSubject (bridgeRun [Subscribe, SetTopic (Some (str ''api'')), Subscribe,
      SetTopic (Some (str ''security''))] newTopicsBridgeService)) =
     [[Some (str ''getting-started''), Some (str ''api''), Some (str ''security'')], [Some (str ''api''), Some (str ''security'')]]"
    by (simp add: bridgeRun_def setTopic_def subscribeTopic_def nextValue_def subscribe_def
        newTopicsBridgeService_def newBehaviorSubject_def)
  with bridge_latest_value [of "[Subscribe, SetTopic (Some (str ''api'')), Subscribe,
      SetTopic (Some (str ''security''))]"]
  show ?thesis by simp
qed

section \<open>The submit cycle\<close>

lemma computeFilteredFaqs_Inl:
  "computeFilteredFaqs toLowerCase s q = Inl e \<longleftrightarrow>
     e = TypeError \<and> getProperty faqCatalog (bucketKey faqCatalog (activeTopic s)) = Inherited"
  by (auto simp: computeFilteredFaqs_def Let_def split: property.splits)

lemma sendBegin_Awaiting:
  assumes "sendBegin toLowerCase s = Awaiting s1 q t"
  shows "\<not> sending s \<and> cleaned (filterInput (input s)) = Some q \<and> q \<noteq> [] \<and>
         t = activeTopic s \<and> activeTopic s1 = activeTopic s \<and> lastQuery s1 = q \<and> sending s1 \<and>
         messages s1 =
           messages s @ [\<lparr>role = User, content = q, error = None\<rparr>] @
           (if masked (filterInput (input s)) then [maskNote] else []) \<and>
         refilterSafe s1"
proof -
  from assms have ns: "\<not> sending s"
    by (auto simp: sendBegin_def split: if_splits)
  from assms ns obtain c where c: "cleaned (filterInput (input s)) = Some c" "c \<noteq> []"
    by (auto simp: sendBegin_def Let_def split: option.splits if_splits)
  let ?r = "filterInput (input s)"
  let ?s1 = "s\<lparr>filterFeedback := feedback ?r, lastQuery := c\<rparr>"
  from assms ns c obtain faqs where f: "computeFilteredFaqs toLowerCase ?s1 c = Inr faqs"
    by (auto simp: sendBegin_def Let_def split: sum.splits)
  then have safe: "getProperty faqCatalog (bucketKey faqCatalog (activeTopic s)) \<noteq> Inherited"
    by (auto simp: computeFilteredFaqs_def Let_def split: property.splits)
  from assms ns c f show ?thesis
    by (auto simp: sendBegin_def Let_def masked_def refilterSafe_def safe split: option.splits)
qed

lemma refilter_safe:
  assumes "refilterSafe s"
  shows "\<exists>s'. refilter toLowerCase s = Inr s' \<and> messages s' = messages s \<and> sending s' = sending s"
proof (cases "lastQuery s = []")
  case True
  then show ?thesis by (simp add: refilter_def)
next
  case False
  with assms have "getProperty faqCatalog (bucketKey faqCatalog (activeTopic s)) \<noteq> Inherited"
    by (simp add: refilterSafe_def)
  then obtain faqs where "computeFilteredFaqs toLowerCase s (lastQuery s) = Inr faqs"
    by (cases "computeFilteredFaqs toLowerCase s (lastQuery s)") (auto simp: computeFilteredFaqs_Inl)
  with False show ?thesis by (simp add: refilter_def Let_def)
qed

lemma refilterSafe_push: "refilterSafe (s\<lparr>messages := ms\<rparr>) = refilterSafe s"
  by (simp add: refilterSafe_def)

lemma sendCatch_safe:
  assumes "refilterSafe s"
  shows "\<exists>s'. sendCatch toLowerCase s = Returned s' \<and> messages s' = messages s @ [errMsg] \<and> \<not> sending s'"
proof -
  have "refilterSafe (s\<lparr>messages := messages s @ [errMsg]\<rparr>)"
    using assms by (simp add: refilterSafe_push)
  from refilter_safe [OF this] obtain s2 where
    "refilter toLowerCase (s\<lparr>messages := messages s @ [errMsg]\<rparr>) = Inr s2" "messages s2 = messages s @ [errMsg]"
    by auto
  then show ?thesis by (simp add: sendCatch_def Let_def)
qed

lemma sendSettle_safe:
  assumes "refilterSafe s"
  shows "\<exists>s'. sendSettle toLowerCase outcome s = Returned s' \<and>
           messages s' = messages s @ [case outcome of Inl e \<Rightarrow> errMsg | Inr m \<Rightarrow> m] \<and> \<not> sending s'"
proof (cases outcome)
  case (Inl e)
  with sendCatch_safe [OF assms] show ?thesis by (simp add: sendSettle_def)
next
  case (Inr m)
  have "refilterSafe (s\<lparr>messages := messages s @ [m]\<rparr>)"
    using assms by (simp add: refilterSafe_push)
  from refilter_safe [OF this] obtain s2 where
    "refilter toLowerCase (s\<lparr>messages := messages s @ [m]\<rparr>) = Inr s2" "messages s2 = messages s @ [m]"
    by auto
  with Inr show ?thesis by (simp add: sendSettle_def Let_def)
qed

lemma applyEvent_safe:
  assumes "sending s" and "refilterSafe s"
  shows "sending (applyEvent toLowerCase ev s) \<and> refilterSafe (applyEvent toLowerCase ev s)"
proof (cases ev)
  case (TopicEvent t)
  with assms show ?thesis
    by (auto simp: onTopic_def resetFilterView_def refilterSafe_def Let_def split: option.splits)
next
  case ClearEvent
  with assms show ?thesis
    by (simp add: clear_def resetFilterView_def refilterSafe_def)
next
  case (InputEvent v)
  with assms show ?thesis
    by (simp add: refilterSafe_def)
next
  case SendEvent
  with assms show ?thesis
    by (simp add: sendBegin_def)
qed

lemma applyEvents_safe:
  "sending s \<Longrightarrow> refilterSafe s \<Longrightarrow>
     sending (applyEvents toLowerCase evs s) \<and> refilterSafe (applyEvents toLowerCase evs s)"
  unfolding applyEvents_def
  by (induction evs arbitrary: s) (simp_all add: applyEvent_safe)

lemma sendSettle_not_sending:
  "sendSettle toLowerCase outcome s = Returned s' \<or> sendSettle toLowerCase outcome s = Threw e s' \<Longrightarrow> \<not> sending s'"
  by (auto simp: sendSettle_def sendCatch_def Let_def split: sum.splits)

lemma sendBegin_not_sending:
  "\<not> sending s \<Longrightarrow> sendBegin toLowerCase s = Returned s' \<or> sendBegin toLowerCase s = Threw e s' \<Longrightarrow> \<not> sending s'"
  by (auto simp: sendBegin_def Let_def split: option.splits if_splits sum.splits)

text \<open>
  C7. When \<open>send\<close> has called the service and the call is rejected, whatever
  events arrive in between, \<open>send\<close> returns normally, the transcript is the one at
  that moment with exactly one message appended, the assistant message with the fixed text
  and the error flag, and \<open>sending\<close> is false. And whenever \<open>send\<close>, started
  on an idle panel, is over (by return or by exception), \<open>sending\<close> is false.
\<close>

theorem send_failure_handled:
  "(sendBegin toLowerCase s = Awaiting s1 q t \<longrightarrow> rag q t = Rejected e \<longrightarrow>
      (\<exists>s'. send toLowerCase rag evs s = Returned s' \<and>
            messages s' = messages (applyEvents toLowerCase evs s1) @
              [\<lparr>role = Assistant,
                content = (str ''Sorry, something went wrong while fetching the answer.''),
                error = Some True\<rparr>] \<and>
            \<not> sending s')) \<and>
   (\<not> sending s \<longrightarrow> send toLowerCase rag evs s = Returned s' \<or> send toLowerCase rag evs s = Threw e' s' \<longrightarrow>
      \<not> sending s')"
proof (intro conjI impI)
  assume b: "sendBegin toLowerCase s = Awaiting s1 q t" and r: "rag q t = Rejected e"
  from sendBegin_Awaiting [OF b] have "sending s1" and "refilterSafe s1" by simp_all
  then have "refilterSafe (applyEvents toLowerCase evs s1)" by (simp add: applyEvents_safe)
  from sendSettle_safe [OF this, where outcome = "Inl e"] b r
  show "\<exists>s'. send toLowerCase rag evs s = Returned s' \<and>
            messages s' = messages (applyEvents toLowerCase evs s1) @
              [\<lparr>role = Assistant,
                content = (str ''Sorry, something went wrong while fetching the answer.''),
                error = Some True\<rparr>] \<and>
            \<not> sending s'"
    by (simp add: send_def errMsg_def)
next
  assume ns: "\<not> sending s"
    and fin: "send toLowerCase rag evs s = Returned s' \<or> send toLowerCase rag evs s = Threw e' s'"
  show "\<not> sending s'"
  proof (cases "sendBegin toLowerCase s")
    case (Returned x)
    with fin ns sendBegin_not_sending [where toLowerCase = toLowerCase and s = s
        and s' = s' and e = e'] show ?thesis
      by (simp add: send_def)
  next
    case (Threw x y)
    with fin ns sendBegin_not_sending [where toLowerCase = toLowerCase and s = s
        and s' = s' and e = e'] show ?thesis
      by (simp add: send_def)
  next
    case (Awaiting x q' t')
    with fin sendSettle_not_sending [where toLowerCase = toLowerCase
        and s = "applyEvents toLowerCase evs x" and s' = s' and e = e'] show ?thesis
      by (cases "rag q' t'") (auto simp: send_def)
  qed
qed


lemma sendBegin_hello:
  "sendBegin asciiLowerCase helloPanel = Awaiting (panelOf (sendBegin asciiLowerCase helloPanel)) (str ''hello'') (Some (str ''getting-started''))"
  by code_simp

lemma messages_hello:
  "messages (panelOf (sendBegin asciiLowerCase helloPanel)) =
     [seedMessage,
      \<lparr>role = System, content = (str ''Context updated to topic: getting started''), error = None\<rparr>,
      \<lparr>role = User, content = (str ''hello''), error = None\<rparr>]"
  by code_simp

theorem send_failure_handled_witness:
  "messages (panelOf (send asciiLowerCase failingService [] helloPanel)) =
     [seedMessage,
      \<lparr>role = System, content = (str ''Context updated to topic: getting started''), error = None\<rparr>,
      \<lparr>role = User, content = (str ''hello''), error = None\<rparr>,
      \<lparr>role = Assistant, content = (str ''Sorry, something went wrong while fetching the answer.''),
       error = Some True\<rparr>] \<and>
   \<not> sending (panelOf (send asciiLowerCase failingService [] helloPanel))"
proof -
  have r: "failingService (str ''hello'') (Some (str ''getting-started'')) = Rejected TypeError"
    by (simp add: failingService_def)
  from send_failure_handled [where toLowerCase = asciiLowerCase and s = helloPanel
      and ?s1.0 = "panelOf (sendBegin asciiLowerCase helloPanel)" and q = "str ''hello''"
      and t = "Some (str ''getting-started'')" and rag = failingService and e = TypeError
      and evs = "[]"] sendBegin_hello r
  obtain s' where "send asciiLowerCase failingService [] helloPanel = Returned s'"
    and "messages s' = messages (applyEvents asciiLowerCase [] (panelOf (sendBegin asciiLowerCase helloPanel))) @
              [\<lparr>role = Assistant,
                content = (str ''Sorry, something went wrong while fetching the answer.''),
                error = Some True\<rparr>]"
    and "\<not> sending s'"
    by blast
  then show ?thesis
    by (simp add: applyEvents_def messages_hello)
qed

section \<open>Masking of banned words\<close>

lemma isWordChar_asciiLowerChar: "isWordChar (asciiLowerChar c) = isWordChar c"
  by (auto simp: isWordChar_def asciiLowerChar_def)

lemma word_not_white: "isWordChar c \<Longrightarrow> \<not> isWhiteSpace c"
  by (auto simp: isWhiteSpace_def isWordChar_def)

lemma banned_words:
  assumes "w \<in> set banned"
  shows "asciiLowerCase w = w" and "w \<noteq> []" and "\<forall>c \<in> set w. isWordChar c"
  using assms by (auto simp: banned_def str_def asciiLowerCase_def asciiLowerChar_def isWordChar_def)

lemma banned_instance:
  assumes "asciiLowerCase m \<in> set banned"
  shows "m \<noteq> []" and "\<forall>c \<in> set m. isWordChar c"
proof -
  from banned_words(2) [OF assms] show "m \<noteq> []"
    by (auto simp: asciiLowerCase_def)
  from banned_words(3) [OF assms] have "\<forall>c \<in> set m. isWordChar (asciiLowerChar c)"
    by (simp add: asciiLowerCase_def)
  then show "\<forall>c \<in> set m. isWordChar c"
    by (simp add: isWordChar_asciiLowerChar)
qed

lemma matchLiteral_SomeD:
  "matchLiteral p s = Some (m, rest) \<Longrightarrow> s = m @ rest \<and> length m = length p"
  by (auto simp: matchLiteral_def split: if_splits)

lemma matchLiteral_Some_iff:
  "matchLiteral p s = Some (m, rest) \<longleftrightarrow>
     s = m @ rest \<and> length m = length p \<and> asciiLowerCase m = asciiLowerCase p"
proof
  assume a: "matchLiteral p s = Some (m, rest)"
  then have "map canonicalize m = map canonicalize p"
    by (auto simp: matchLiteral_def split: if_splits)
  then have "asciiLowerCase m = asciiLowerCase p"
    by (simp only: map_canonicalize_eq_iff asciiLowerCase_def)
  with matchLiteral_SomeD [OF a]
  show "s = m @ rest \<and> length m = length p \<and> asciiLowerCase m = asciiLowerCase p"
    by simp
next
  assume a: "s = m @ rest \<and> length m = length p \<and> asciiLowerCase m = asciiLowerCase p"
  then have "map canonicalize m = map canonicalize p"
    by (simp only: map_canonicalize_eq_iff asciiLowerCase_def)
  with a show "matchLiteral p s = Some (m, rest)"
    by (simp add: matchLiteral_def)
qed

lemma matchLiteral_head:
  assumes "matchLiteral w s = Some (m, rest)" and "w \<noteq> []"
  shows "s \<noteq> [] \<and> asciiLowerChar (hd s) = hd (asciiLowerCase w)"
proof -
  from assms(1) have a: "s = m @ rest" "length m = length w" "asciiLowerCase m = asciiLowerCase w"
    by (simp_all add: matchLiteral_Some_iff)
  from a(2) assms(2) have "m \<noteq> []" by auto
  then obtain c cs where m: "m = c # cs" by (cases m) auto
  with a show ?thesis by (auto simp: asciiLowerCase_def)
qed

lemma matchGroup_iff:
  assumes "\<forall>w \<in> set ws. w \<noteq> []" and "distinct (map (\<lambda>w. hd (asciiLowerCase w)) ws)"
  shows "matchGroup ws prev s = Some (m, rest) \<longleftrightarrow>
           (\<exists>w \<in> set ws. matchLiteral w s = Some (m, rest)) \<and>
           wordBoundary (Some (last m)) (headOpt rest)"
  using assms
proof (induction ws)
  case Nil
  show ?case by simp
next
  case (Cons w ws)
  then have IH: "matchGroup ws prev s = Some (m, rest) \<longleftrightarrow>
           (\<exists>w \<in> set ws. matchLiteral w s = Some (m, rest)) \<and>
           wordBoundary (Some (last m)) (headOpt rest)"
    by simp
  from Cons.prems have w: "w \<noteq> []" and ws: "\<forall>v \<in> set ws. v \<noteq> []"
    by auto
  from Cons.prems(2) have ni: "hd (asciiLowerCase w) \<notin> (\<lambda>v. hd (asciiLowerCase v)) ` set ws"
    by simp
  have dist: "\<forall>v \<in> set ws. hd (asciiLowerCase v) \<noteq> hd (asciiLowerCase w)"
  proof (intro ballI notI)
    fix v
    assume "v \<in> set ws" and "hd (asciiLowerCase v) = hd (asciiLowerCase w)"
    then have "hd (asciiLowerCase w) \<in> (\<lambda>v. hd (asciiLowerCase v)) ` set ws"
      by (metis (no_types, lifting) image_eqI)
    with ni show False by simp
  qed
  show ?case
  proof (cases "matchLiteral w s")
    case None
    then show ?thesis by (simp add: IH)
  next
    case (Some a)
    obtain m0 r0 where a: "a = (m0, r0)" by (cases a)
    from Some a have m0: "matchLiteral w s = Some (m0, r0)" by simp
    from matchLiteral_SomeD [OF m0] w have m0n: "m0 \<noteq> []" by auto
    have others: "matchLiteral v s = None" if "v \<in> set ws" for v
    proof (rule ccontr)
      assume "matchLiteral v s \<noteq> None"
      then obtain m1 r1 where "matchLiteral v s = Some (m1, r1)" by auto
      from matchLiteral_head [OF this] ws that matchLiteral_head [OF m0 w] dist
      show False by auto
    qed
    then have none: "\<not> (\<exists>v \<in> set ws. matchLiteral v s = Some (m, rest))"
      by auto
    with IH have g: "matchGroup ws prev s \<noteq> Some (m, rest)" by simp
    show ?thesis
    proof (cases "wordBoundary (Some (last m0)) (headOpt r0)")
      case True
      with m0 m0n none show ?thesis by auto
    next
      case False
      with m0 m0n none g show ?thesis by auto
    qed
  qed
qed

lemma bannedRegexAt_iff:
  "bannedRegexAt prev s = Some (m, rest) \<longleftrightarrow> s = m @ rest \<and> wholeWord prev m rest"
proof -
  have g: "matchGroup banned prev s = Some (m, rest) \<longleftrightarrow>
           (\<exists>w \<in> set banned. matchLiteral w s = Some (m, rest)) \<and>
           wordBoundary (Some (last m)) (headOpt rest)"
    by (rule matchGroup_iff) (simp_all add: banned_def str_def asciiLowerCase_def asciiLowerChar_def)
  have l: "(\<exists>w \<in> set banned. matchLiteral w s = Some (m, rest)) \<longleftrightarrow>
           s = m @ rest \<and> asciiLowerCase m \<in> set banned"
  proof
    assume "\<exists>w \<in> set banned. matchLiteral w s = Some (m, rest)"
    then obtain w where w: "w \<in> set banned" "matchLiteral w s = Some (m, rest)" by auto
    with banned_words(1) [OF w(1)] show "s = m @ rest \<and> asciiLowerCase m \<in> set banned"
      by (simp add: matchLiteral_Some_iff)
  next
    assume a: "s = m @ rest \<and> asciiLowerCase m \<in> set banned"
    then have "length (asciiLowerCase m) = length m" by (simp add: asciiLowerCase_def)
    with a banned_words(1) [of "asciiLowerCase m"]
    have "matchLiteral (asciiLowerCase m) s = Some (m, rest)"
      by (simp add: matchLiteral_Some_iff)
    with a show "\<exists>w \<in> set banned. matchLiteral w s = Some (m, rest)" by auto
  qed
  show ?thesis
  proof (cases "s = m @ rest \<and> asciiLowerCase m \<in> set banned")
    case False
    with g l show ?thesis
      by (auto simp: bannedRegexAt_def wholeWord_def)
  next
    case True
    from banned_instance [of m] True have mn: "m \<noteq> []" and mw: "\<forall>c \<in> set m. isWordChar c"
      by simp_all
    then have lw: "isWordChar (last m)" and hw: "isWordChar (hd m)" by simp_all
    obtain c cs where m: "m = c # cs" using mn by (cases m) auto
    with hw True have "wordCharOpt (headOpt s)" by simp
    with g l True lw show ?thesis
      by (simp add: bannedRegexAt_def wholeWord_def wordBoundary_def)
  qed
qed

lemma lastOpt_Cons: "lastOpt (c # pre) = (if pre = [] then Some c else lastOpt pre)"
  by (simp add: lastOpt_def)

lemma bannedRegexTest_iff:
  "bannedRegexTest prev s \<longleftrightarrow>
     (\<exists>pre w post. s = pre @ w @ post \<and> wholeWord (if pre = [] then prev else lastOpt pre) w post)"
proof (induction s arbitrary: prev)
  case Nil
  show ?case by (auto simp: wholeWord_def dest: banned_instance(1))
next
  case (Cons c cs)
  have "(\<exists>pre w post. c # cs = pre @ w @ post \<and>
           wholeWord (if pre = [] then prev else lastOpt pre) w post) \<longleftrightarrow>
        (\<exists>w post. c # cs = w @ post \<and> wholeWord prev w post) \<or>
        (\<exists>pre w post. cs = pre @ w @ post \<and>
           wholeWord (if pre = [] then Some c else lastOpt pre) w post)"
    (is "?L \<longleftrightarrow> ?A \<or> ?B")
  proof
    assume ?L
    then obtain pre w post where d: "c # cs = pre @ w @ post"
      and ww: "wholeWord (if pre = [] then prev else lastOpt pre) w post" by blast
    show "?A \<or> ?B"
    proof (cases pre)
      case Nil
      with d ww show ?thesis by auto
    next
      case (Cons a pre')
      with d have "cs = pre' @ w @ post" and "a = c" by simp_all
      moreover from ww Cons \<open>a = c\<close>
      have "wholeWord (if pre' = [] then Some c else lastOpt pre') w post"
        by (simp add: lastOpt_Cons)
      ultimately show ?thesis by blast
    qed
  next
    assume "?A \<or> ?B"
    then show ?L
    proof
      assume ?A
      then obtain w post where "c # cs = [] @ w @ post"
        and "wholeWord (if ([]::jsString) = [] then prev else lastOpt []) w post" by auto
      then show ?L by blast
    next
      assume ?B
      then obtain pre w post where d: "cs = pre @ w @ post"
        and ww: "wholeWord (if pre = [] then Some c else lastOpt pre) w post" by blast
      from ww have "wholeWord (if c # pre = [] then prev else lastOpt (c # pre)) w post"
        by (simp add: lastOpt_Cons)
      moreover from d have "c # cs = (c # pre) @ w @ post" by simp
      ultimately show ?L by blast
    qed
  qed
  moreover have "bannedRegexAt prev (c # cs) \<noteq> None \<longleftrightarrow>
      (\<exists>w post. c # cs = w @ post \<and> wholeWord prev w post)"
    using bannedRegexAt_iff [of prev "c # cs"] by auto
  ultimately show ?case
    by (simp only: bannedRegexTest.simps Cons.IH)
qed

lemma bannedRegexTest_containsBannedWord:
  "bannedRegexTest None s \<longleftrightarrow> containsBannedWord s"
proof -
  have "(if pre = [] then None else lastOpt pre) = lastOpt pre" for pre
    by (simp add: lastOpt_def)
  then show ?thesis
    by (simp add: bannedRegexTest_iff containsBannedWord_def)
qed


subsection \<open>Normalisation keeps a banned word a whole word\<close>

lemma dropWhile_append_keep:
  assumes "ys = [] \<or> \<not> P (hd ys)"
  shows "dropWhile P (xs @ ys) = dropWhile P xs @ ys"
proof (cases "\<forall>x \<in> set xs. P x")
  case True
  then have "dropWhile P xs = []" by simp
  moreover from assms have "dropWhile P ys = ys" by (cases ys) auto
  ultimately show ?thesis using True by (simp add: dropWhile_append)
next
  case False
  then show ?thesis by (auto simp: dropWhile_append)
qed

lemma last_dropWhile: "dropWhile P xs \<noteq> [] \<Longrightarrow> last (dropWhile P xs) = last xs"
  by (metis last_appendR takeWhile_dropWhile_id)

lemma collapseWhitespace_append:
  assumes "ys = [] \<or> \<not> isWhiteSpace (hd ys)"
  shows "collapseWhitespace (xs @ ys) = collapseWhitespace xs @ collapseWhitespace ys"
proof (induction xs rule: collapseWhitespace.induct)
  case 1
  show ?case by simp
next
  case (2 c cs)
  show ?case
  proof (cases "isWhiteSpace c")
    case True
    with 2 show ?thesis
      by (simp add: dropWhile_append_keep [of ys isWhiteSpace, OF assms])
  next
    case False
    with 2 show ?thesis by simp
  qed
qed

lemma collapseWhitespace_word:
  "\<forall>c \<in> set w. \<not> isWhiteSpace c \<Longrightarrow> collapseWhitespace (w @ post) = w @ collapseWhitespace post"
  by (induction w) simp_all

lemma collapseWhitespace_Nil_iff: "collapseWhitespace xs = [] \<longleftrightarrow> xs = []"
  by (cases xs) simp_all

lemma last_collapseWhitespace:
  "xs \<noteq> [] \<Longrightarrow>
     last (collapseWhitespace xs) = (if isWhiteSpace (last xs) then (32::int) else last xs)"
proof (induction xs rule: collapseWhitespace.induct)
  case 1
  then show ?case by simp
next
  case (2 c cs)
  show ?case
  proof (cases "isWhiteSpace c")
    case True
    show ?thesis
    proof (cases "dropWhile isWhiteSpace cs = []")
      case d: True
      then have "\<forall>x \<in> set cs. isWhiteSpace x" by simp
      then have w: "isWhiteSpace (last (c # cs))" using True by simp
      have "collapseWhitespace (c # cs) =
              (32::int) # collapseWhitespace (dropWhile isWhiteSpace cs)"
        using True by simp
      then have "collapseWhitespace (c # cs) = [32]"
        unfolding d by simp
      with w show ?thesis by simp
    next
      case d: False
      then have "cs \<noteq> []" by auto
      with 2(1) [OF True d] True d last_dropWhile [OF d] show ?thesis
        by (simp add: collapseWhitespace_Nil_iff)
    qed
  next
    case False
    with 2(2) show ?thesis
      by (cases "cs = []") (simp_all add: collapseWhitespace_Nil_iff)
  qed
qed

lemma space_not_word: "\<not> isWordChar ((32::int))"
  by (simp add: isWordChar_def)

lemma lastOpt_collapseWhitespace:
  assumes "wordCharOpt (lastOpt (collapseWhitespace pre))"
  shows "wordCharOpt (lastOpt pre)"
proof -
  from assms have c: "collapseWhitespace pre \<noteq> []"
    by (auto simp: lastOpt_def split: if_splits)
  then have ne: "pre \<noteq> []" by auto
  from assms c have "isWordChar (last (collapseWhitespace pre))" by (simp add: lastOpt_def)
  with last_collapseWhitespace [OF ne] have "isWordChar (last pre)"
    by (auto simp: space_not_word split: if_splits)
  with ne show ?thesis by (simp add: lastOpt_def)
qed

lemma headOpt_collapseWhitespace:
  "wordCharOpt (headOpt (collapseWhitespace post)) \<Longrightarrow> wordCharOpt (headOpt post)"
  by (cases post) (auto simp: space_not_word split: if_splits)

lemma lastOpt_dropWhile:
  assumes "wordCharOpt (lastOpt (dropWhile P pre))"
  shows "wordCharOpt (lastOpt pre)"
proof -
  from assms have ne: "dropWhile P pre \<noteq> []"
    by (auto simp: lastOpt_def split: if_splits)
  then have p: "pre \<noteq> []" by auto
  from assms ne have "isWordChar (last (dropWhile P pre))"
    by (auto simp: lastOpt_def split: if_splits)
  with last_dropWhile [OF ne] p show ?thesis by (simp add: lastOpt_def)
qed

lemma headOpt_rev: "headOpt (rev xs) = lastOpt xs"
  by (cases xs rule: rev_cases) (simp_all add: lastOpt_def)

lemma lastOpt_rev: "lastOpt (rev xs) = headOpt xs"
  by (cases xs) (simp_all add: lastOpt_def)

lemma trim_around_word:
  assumes "w \<noteq> []" and "\<forall>c \<in> set w. \<not> isWhiteSpace c"
  shows "trim (pre @ w @ post) =
           dropWhile isWhiteSpace pre @ w @ rev (dropWhile isWhiteSpace (rev post))"
proof -
  from assms have h: "w @ post = [] \<or> \<not> isWhiteSpace (hd (w @ post))"
    by (cases w) auto
  from assms have l: "rev w @ rev (dropWhile isWhiteSpace pre) = [] \<or>
      \<not> isWhiteSpace (hd (rev w @ rev (dropWhile isWhiteSpace pre)))"
    by (cases w rule: rev_cases) auto
  have "dropWhile isWhiteSpace (pre @ w @ post) = dropWhile isWhiteSpace pre @ w @ post"
    by (rule dropWhile_append_keep [of "w @ post" isWhiteSpace, OF h])
  moreover have "dropWhile isWhiteSpace (rev post @ rev w @ rev (dropWhile isWhiteSpace pre)) =
      dropWhile isWhiteSpace (rev post) @ rev w @ rev (dropWhile isWhiteSpace pre)"
    by (rule dropWhile_append_keep
        [of "rev w @ rev (dropWhile isWhiteSpace pre)" isWhiteSpace, OF l])
  ultimately show ?thesis by (simp add: trim_def)
qed

lemma containsBannedWord_normalised:
  assumes "containsBannedWord raw"
  shows "containsBannedWord (trim (collapseWhitespace raw))"
proof -
  from assms obtain pre w post where raw: "raw = pre @ w @ post"
    and ww: "wholeWord (lastOpt pre) w post"
    by (auto simp: containsBannedWord_def)
  from ww have b: "asciiLowerCase w \<in> set banned"
    and np: "\<not> wordCharOpt (lastOpt pre)" and nq: "\<not> wordCharOpt (headOpt post)"
    by (simp_all add: wholeWord_def)
  from banned_instance [OF b] have wn: "w \<noteq> []" and wnw: "\<forall>c \<in> set w. \<not> isWhiteSpace c"
    by (auto dest: word_not_white)
  from wn wnw have "w @ post = [] \<or> \<not> isWhiteSpace (hd (w @ post))"
    by (cases w) auto
  then have "collapseWhitespace raw = collapseWhitespace pre @ collapseWhitespace (w @ post)"
    unfolding raw by (rule collapseWhitespace_append)
  then have c: "collapseWhitespace raw = collapseWhitespace pre @ w @ collapseWhitespace post"
    by (simp add: collapseWhitespace_word [OF wnw])
  let ?pre = "dropWhile isWhiteSpace (collapseWhitespace pre)"
  let ?post = "rev (dropWhile isWhiteSpace (rev (collapseWhitespace post)))"
  have t: "trim (collapseWhitespace raw) = ?pre @ w @ ?post"
    unfolding c by (rule trim_around_word [OF wn wnw])
  have "\<not> wordCharOpt (lastOpt ?pre)"
    using np lastOpt_dropWhile lastOpt_collapseWhitespace by blast
  moreover have "\<not> wordCharOpt (headOpt ?post)"
  proof
    assume "wordCharOpt (headOpt ?post)"
    then have "wordCharOpt (lastOpt (dropWhile isWhiteSpace (rev (collapseWhitespace post))))"
      by (simp only: headOpt_rev)
    then have "wordCharOpt (lastOpt (rev (collapseWhitespace post)))"
      by (rule lastOpt_dropWhile)
    then have "wordCharOpt (headOpt (collapseWhitespace post))"
      by (simp only: lastOpt_rev)
    with nq headOpt_collapseWhitespace show False by blast
  qed
  ultimately have "wholeWord (lastOpt ?pre) w ?post"
    using b by (simp add: wholeWord_def)
  with t show ?thesis
    unfolding containsBannedWord_def by blast
qed

subsection \<open>The replacement masks every whole-word occurrence\<close>

lemma replaceBanned_masking: "masking prev s (replaceBanned prev s)"
proof (induction prev s rule: replaceBanned.induct)
  case (1 prev)
  show ?case by (simp add: masking.finished)
next
  case (2 prev c cs)
  show ?case
  proof (cases "bannedRegexAt prev (c # cs)")
    case None
    then have "\<not> (\<exists>w post. c # cs = w @ post \<and> wholeWord prev w post)"
      using bannedRegexAt_iff [of prev "c # cs"] by auto
    with 2(1) [OF None] None show ?thesis
      by (simp add: masking.kept)
  next
    case (Some a)
    obtain m rest where a: "a = (m, rest)" by (cases a)
    with Some have at: "bannedRegexAt prev (c # cs) = Some (m, rest)" by simp
    then have d: "c # cs = m @ rest" and ww: "wholeWord prev m rest"
      by (simp_all add: bannedRegexAt_iff)
    from ww have "m \<noteq> []" by (auto simp: wholeWord_def dest: banned_instance(1))
    then have lm: "lastOpt m = Some (last m)" by (simp add: lastOpt_def)
    from 2(2) [OF Some a [symmetric]] have "masking (lastOpt m) rest (replaceBanned (Some (last m)) rest)"
      by (simp add: lm)
    then have "masking prev (m @ rest) (maskToken @ replaceBanned (Some (last m)) rest)"
      by (rule masking.replaced [OF ww])
    moreover have "replaceBanned prev (c # cs) = maskToken @ replaceBanned (Some (last m)) rest"
      using at by simp
    ultimately show ?thesis
      by (simp only: d [symmetric])
  qed
qed

lemma replaceBanned_Nil_iff: "replaceBanned prev s = [] \<longleftrightarrow> s = []"
  by (cases s) (auto simp: maskToken_def str_def split: option.splits)


subsection \<open>No banned word is left after the replacement\<close>

lemma star_not_word: "\<not> isWordChar ((42::int))"
  by (simp add: isWordChar_def)

lemma wholeWord_head:
  assumes "wholeWord prev m r"
  shows "m \<noteq> [] \<and> isWordChar (hd m) \<and> isWordChar (last m) \<and> (\<forall>c \<in> set m. isWordChar c)"
  using assms banned_instance [of m] by (auto simp: wholeWord_def)

lemma bannedRegexAt_nonword:
  "\<not> isWordChar c \<Longrightarrow> bannedRegexAt p (c # cs) = None"
proof (rule ccontr)
  assume nw: "\<not> isWordChar c" and "bannedRegexAt p (c # cs) \<noteq> None"
  then obtain m r where "bannedRegexAt p (c # cs) = Some (m, r)" by auto
  then have d: "c # cs = m @ r" and ww: "wholeWord p m r"
    by (simp_all add: bannedRegexAt_iff)
  from wholeWord_head [OF ww] d have "isWordChar c"
    by (cases m) auto
  with nw show False by simp
qed

lemma masking_prefix:
  assumes "masking prev s (m @ r)" and "\<forall>c \<in> set m. isWordChar c"
  shows "\<exists>r'. s = m @ r' \<and> masking (if m = [] then prev else Some (last m)) r' r"
  using assms
proof (induction m arbitrary: prev s)
  case Nil
  then show ?case by simp
next
  case (Cons a m)
  from Cons.prems(2) have a: "isWordChar a" and mw: "\<forall>c \<in> set m. isWordChar c"
    by simp_all
  from Cons.prems(1) show ?case
  proof (cases rule: masking.cases)
    case finished
    then show ?thesis by simp
  next
    case (kept c cs out)
    then have "c = a" and o: "out = m @ r" by simp_all
    with kept have "masking (Some a) cs (m @ r)" by simp
    from Cons.IH [OF this mw] obtain r' where
      "cs = m @ r'" and "masking (if m = [] then Some a else Some (last m)) r' r" by blast
    with kept \<open>c = a\<close> show ?thesis by auto
  next
    case (replaced w post out)
    then have "a = (42::int)" by (simp add: maskToken_def str_def)
    with a star_not_word show ?thesis by simp
  qed
qed

lemma masking_head_after_word:
  assumes "masking prev s out" and "wordCharOpt prev"
  shows "headOpt out = headOpt s"
  using assms by (cases rule: masking.cases) (auto simp: wholeWord_def)

lemma masking_clean:
  assumes "masking prev s out"
  shows "\<not> bannedRegexTest prev out \<and>
         (\<not> wordCharOpt (headOpt s) \<longrightarrow> (\<forall>p. \<not> bannedRegexTest p out))"
  using assms
proof (induction rule: masking.induct)
  case (finished prev)
  show ?case by simp
next
  case (kept c cs prev out)
  have whole: "masking prev (c # cs) (c # out)"
    by (rule masking.kept) (use kept.hyps in auto)
  have no: "bannedRegexAt prev (c # out) = None"
  proof (rule ccontr)
    assume "bannedRegexAt prev (c # out) \<noteq> None"
    then obtain m r where "bannedRegexAt prev (c # out) = Some (m, r)" by auto
    then have d: "c # out = m @ r" and ww: "wholeWord prev m r"
      by (simp_all add: bannedRegexAt_iff)
    from wholeWord_head [OF ww] have mn: "m \<noteq> []" and ml: "isWordChar (last m)"
      and mw: "\<forall>c \<in> set m. isWordChar c" by simp_all
    from whole d have "masking prev (c # cs) (m @ r)" by simp
    from masking_prefix [OF this mw] mn obtain r' where
      s: "c # cs = m @ r'" and sub: "masking (Some (last m)) r' r" by auto
    from masking_head_after_word [OF sub] ml have "headOpt r = headOpt r'" by simp
    with ww have "wholeWord prev m r'" by (simp add: wholeWord_def)
    with s kept.hyps(1) show False by blast
  qed
  from kept.IH have rest: "\<not> bannedRegexTest (Some c) out" by simp
  from no rest have one: "\<not> bannedRegexTest prev (c # out)" by simp
  have two: "\<forall>p. \<not> bannedRegexTest p (c # out)" if "\<not> wordCharOpt (headOpt (c # cs))"
    using that rest by (simp add: bannedRegexAt_nonword)
  from one two show ?case by blast
next
  case (replaced prev w post out)
  from wholeWord_head [OF replaced.hyps(1)] have wn: "w \<noteq> []" and wh: "isWordChar (hd w)"
    by simp_all
  from replaced.hyps(1) have "\<not> wordCharOpt (headOpt post)"
    by (simp add: wholeWord_def)
  with replaced.IH have clean: "\<not> bannedRegexTest (Some ((42::int))) out" by blast
  have stars: "\<not> bannedRegexTest p (maskToken @ out)" for p
    using clean by (simp add: maskToken_def str_def bannedRegexAt_nonword star_not_word)
  from wn wh have "wordCharOpt (headOpt (w @ post))" by (cases w) auto
  with stars show ?case by simp
qed

lemma replaceBanned_clean: "\<not> containsBannedWord (replaceBanned None s)"
  using masking_clean [OF replaceBanned_masking [of None s]]
  by (simp add: bannedRegexTest_containsBannedWord)

subsection \<open>The masked message is sent\<close>

lemma maskNote_matches:
  "testAlternatives [(str ''masked'')] (str ''Note: Certain words were masked for safety.'')"
  by code_simp

lemma filterInput_banned:
  assumes "containsBannedWord raw"
  shows "filterInput raw =
           \<lparr>cleaned = Some (replaceBanned None (trim (collapseWhitespace raw))),
            feedback = Some (str ''Note: Certain words were masked for safety.'')\<rparr>"
proof -
  from containsBannedWord_normalised [OF assms]
  have t: "bannedRegexTest None (trim (collapseWhitespace raw))"
    by (simp add: bannedRegexTest_containsBannedWord)
  then have "trim (collapseWhitespace raw) \<noteq> []" by auto
  with t show ?thesis by (simp add: filterInput_def)
qed

text \<open>
  C5. For every raw input that contains a banned word as a whole word, in any letter case,
  \<open>filterInput\<close> returns a cleaned text together with the feedback "Note: Certain words
  were masked for safety."; the cleaned text is the normalised input with every whole-word
  occurrence replaced by \<open>****\<close> and all else kept, and no banned word is left in it;
  and \<open>send\<close> on an idle panel (whose FAQ lookup does not fail) accepts it: the masked
  text and the mask note are appended to the transcript and the service is called with the
  masked text.
\<close>

theorem banned_word_masked:
  assumes "containsBannedWord raw"
  shows "\<exists>out. filterInput raw =
             \<lparr>cleaned = Some out,
              feedback = Some (str ''Note: Certain words were masked for safety.'')\<rparr> \<and>
           masking None (trim (collapseWhitespace raw)) out \<and>
           \<not> containsBannedWord out \<and>
           (\<not> sending s \<longrightarrow> input s = raw \<longrightarrow> faqLookupWorks s \<longrightarrow>
              (\<exists>s'. sendBegin toLowerCase s = Awaiting s' out (activeTopic s) \<and>
                    messages s' =
                      messages s @ [\<lparr>role = User, content = out, error = None\<rparr>, maskNote]))"
proof -
  let ?text = "trim (collapseWhitespace raw)"
  let ?out = "replaceBanned None ?text"
  note f = filterInput_banned [OF assms]
  from containsBannedWord_normalised [OF assms] have "?text \<noteq> []"
    by (auto simp: containsBannedWord_def wholeWord_def dest: banned_instance(1))
  then have ne: "?out \<noteq> []" by (simp add: replaceBanned_Nil_iff)
  have sent: "\<exists>s'. sendBegin toLowerCase s = Awaiting s' ?out (activeTopic s) \<and>
                    messages s' =
                      messages s @ [\<lparr>role = User, content = ?out, error = None\<rparr>, maskNote]"
    if idle: "\<not> sending s" and inp: "input s = raw" and look: "faqLookupWorks s"
  proof -
    let ?s1 = "s\<lparr>filterFeedback := feedback (filterInput raw), lastQuery := ?out\<rparr>"
    from look have "computeFilteredFaqs toLowerCase ?s1 ?out \<noteq> Inl TypeError"
      by (simp add: computeFilteredFaqs_Inl faqLookupWorks_def)
    then obtain faqs where "computeFilteredFaqs toLowerCase ?s1 ?out = Inr faqs"
      by (cases "computeFilteredFaqs toLowerCase ?s1 ?out") (auto simp: computeFilteredFaqs_Inl)
    with idle inp ne show ?thesis
      by (simp add: sendBegin_def f Let_def maskNote_matches del: testAlternatives.simps)
  qed
  from f replaceBanned_masking [of None ?text] replaceBanned_clean [of ?text] sent
  show ?thesis by blast
qed

theorem banned_word_masked_witness:
  "filterInput (str ''Is  this a BadWord?'') =
     \<lparr>cleaned = Some (str ''Is this a ****?''),
      feedback = Some (str ''Note: Certain words were masked for safety.'')\<rparr> \<and>
   sendBegin asciiLowerCase (initialPanel\<lparr>input := (str ''Is  this a BadWord?'')\<rparr>) =
     Awaiting (panelOf (sendBegin asciiLowerCase (initialPanel\<lparr>input := (str ''Is  this a BadWord?'')\<rparr>)))
       (str ''Is this a ****?'') None \<and>
   messages (panelOf (sendBegin asciiLowerCase (initialPanel\<lparr>input := (str ''Is  this a BadWord?'')\<rparr>))) =
     [seedMessage, \<lparr>role = User, content = (str ''Is this a ****?''), error = None\<rparr>, maskNote]"
proof -
  let ?raw = "(str ''Is  this a BadWord?'')"
  let ?s = "initialPanel\<lparr>input := ?raw\<rparr>"
  have "?raw = (str ''Is  this a '') @ (str ''BadWord'') @ (str ''?'') \<and>
        wholeWord (lastOpt (str ''Is  this a '')) (str ''BadWord'') (str ''?'')"
    by code_simp
  then have c: "containsBannedWord ?raw"
    unfolding containsBannedWord_def by blast
  have l: "faqLookupWorks ?s"
    by (simp add: faqLookupWorks_def initialPanel_def bucketKey_def getProperty_def faqCatalog_def)
  have e: "filterInput ?raw =
     \<lparr>cleaned = Some (str ''Is this a ****?''),
      feedback = Some (str ''Note: Certain words were masked for safety.'')\<rparr>"
    by code_simp
  have i: "\<not> sending ?s" "input ?s = ?raw" "activeTopic ?s = None" "messages ?s = [seedMessage]"
    by (simp_all add: initialPanel_def)
  from banned_word_masked [OF c, where s = "?s" and toLowerCase = asciiLowerCase] e i l
  obtain s' where "sendBegin asciiLowerCase ?s = Awaiting s' (str ''Is this a ****?'') None"
    and "messages s' = [seedMessage, \<lparr>role = User, content = (str ''Is this a ****?''), error = None\<rparr>, maskNote]"
    by auto
  with e show ?thesis by simp
qed

section \<open>The local filter view\<close>






subsection \<open>The topics that reach the panel\<close>

text \<open>
  Every id of the sidebar has a bucket of its own in the FAQ catalog and in the knowledge
  base, and none is the name of a property inherited from \<open>Object.prototype\<close>.
\<close>

lemma sidebarTopics_buckets:
  assumes "t \<in> set sidebarTopics"
  shows "Some t \<notin> Some ` set objectPrototypeNames" and "map_of faqCatalog t \<noteq> None"
    and "map_of mockKnowledgeBase t \<noteq> None"
  using assms
  by (auto simp: sidebarTopics_def objectPrototypeNames_def faqCatalog_def mockKnowledgeBase_def)

lemma activeTopic_sendBegin: "activeTopic (panelOf (sendBegin toLowerCase s)) = activeTopic s"
  by (simp add: sendBegin_def Let_def split: option.splits sum.splits)

lemma activeTopic_sendSettle:
  "activeTopic (panelOf (sendSettle toLowerCase outcome s)) = activeTopic s"
  by (simp add: sendSettle_def sendCatch_def refilter_def Let_def split: sum.splits)

lemma activeTopic_applyEvent:
  "activeTopic (applyEvent toLowerCase ev s) =
     (case ev of TopicEvent t \<Rightarrow> t | _ \<Rightarrow> activeTopic s)"
  by (cases ev)
    (simp_all add: onTopic_def resetFilterView_def clear_def activeTopic_sendBegin Let_def
      split: option.splits)

text \<open>
  The panel starts on the seed of the bridge, and the topic events come from the sidebar:
  whatever happens to the panel, its active topic is an id of the sidebar.
\<close>

lemma panel_topic_from_sidebar:
  assumes "\<forall>t. TopicEvent t \<in> set evs \<longrightarrow> t \<in> Some ` set sidebarTopics"
  shows "activeTopic (applyEvents toLowerCase evs (constructPanel newTopicsBridgeService))
           \<in> Some ` set sidebarTopics"
proof -
  have start: "activeTopic (constructPanel newTopicsBridgeService) \<in> Some ` set sidebarTopics"
    by (simp add: constructPanel_def newTopicsBridgeService_def newBehaviorSubject_def
        onTopic_def resetFilterView_def sidebarTopics_def Let_def)
  have "activeTopic (fold (applyEvent toLowerCase) evs s) \<in> Some ` set sidebarTopics"
    if "activeTopic s \<in> Some ` set sidebarTopics" for s
    using assms that
  proof (induction evs arbitrary: s)
    case Nil
    then show ?case by simp
  next
    case (Cons ev evs)
    have "activeTopic (applyEvent toLowerCase ev s) \<in> Some ` set sidebarTopics"
      unfolding activeTopic_applyEvent using Cons.prems by (cases ev) auto
    moreover have "\<forall>t. TopicEvent t \<in> set evs \<longrightarrow> t \<in> Some ` set sidebarTopics"
      using Cons.prems(1) by simp
    ultimately show ?case
      using Cons.IH by simp
  qed
  from this [OF start] show ?thesis
    by (simp add: applyEvents_def)
qed

text \<open>Each message that a change of topic appends to the transcript records the change.\<close>

lemma onTopic_recordsTopicChange:
  assumes "t \<noteq> []"
  shows "\<exists>m. messages (onTopic (Some t) s) = messages s @ [m] \<and> recordsTopicChange m"
proof -
  have "str ''Context updated to topic: '' = str ''Context updated to topic'' @ str '': ''"
    by (simp add: str_def)
  then have "asciiLowerCase (str ''Context updated to topic: '' @ replaceFirstHyphen t) =
        str ''context updated to topic'' @ asciiLowerCase (str '': '' @ replaceFirstHyphen t)"
    by (simp add: asciiLowerCase_def asciiLowerChar_def str_def)
  then have "sublist (str ''context updated to topic'')
        (asciiLowerCase (str ''Context updated to topic: '' @ replaceFirstHyphen t))"
    by (simp add: sublist_append)
  with assms show ?thesis
    by (simp add: onTopic_def resetFilterView_def recordsTopicChange_def Let_def)
qed



text \<open>
  The hypothesis on the topic is needed: for the topic \<open>constructor\<close>, which no part of
  the program publishes, the lookup finds the property inherited from
  \<open>Object.prototype\<close> and \<open>computeFilteredFaqs\<close> throws.
\<close>

lemma computeFilteredFaqs_constructor:
  assumes "activeTopic s = Some (str ''constructor'')"
  shows "computeFilteredFaqs toLowerCase s q = Inl TypeError"
proof -
  have "getProperty faqCatalog (str ''constructor'') = Inherited"
    by (simp add: getProperty_def faqCatalog_def objectPrototypeNames_def)
  with assms show ?thesis
    by (simp add: computeFilteredFaqs_def bucketKey_def Let_def)
qed
section \<open>Questions that come from the panel\<close>

lemma isWhiteSpace_asciiLowerChar: "isWhiteSpace (asciiLowerChar c) = isWhiteSpace c"
  by (auto simp: isWhiteSpace_def asciiLowerChar_def)

lemma space_asciiLowerChar: "asciiLowerChar c = 32 \<longleftrightarrow> c = 32"
  by (auto simp: asciiLowerChar_def)

text \<open>
  When the only whitespace of the lower-case question is the space character, the two
  readings of the first token agree.
\<close>

lemma retrievalClaim_normalised:
  assumes "\<forall>c \<in> set (toLowerCase question). isWhiteSpace c \<longrightarrow> c = 32"
  shows "retrievalClaim toLowerCase isWhiteSpace question topic =
         retrievalClaim toLowerCase (\<lambda>c. c = 32) question topic"
proof -
  have sp: "isWhiteSpace 32" by (simp add: isWhiteSpace_def)
  have "(\<not> isWhiteSpace c) = (c \<noteq> 32)" if "c \<in> set (toLowerCase question)" for c
    using assms sp that by auto
  then have "takeWhile (\<lambda>c. \<not> isWhiteSpace c) (toLowerCase question) =
             takeWhile (\<lambda>c. c \<noteq> 32) (toLowerCase question)"
    by (intro takeWhile_cong) simp_all
  then show ?thesis
    by (simp add: retrievalClaim_def)
qed

text \<open>
  This is so for an ASCII question whose only whitespace is the space character, as every
  ASCII text that \<open>filterInput\<close> has normalised is.
\<close>

lemma retrievalClaim_normalised_ascii:
  assumes "lowersAscii toLowerCase" and "isAscii question"
    and "\<forall>c \<in> set question. isWhiteSpace c \<longrightarrow> c = 32"
  shows "retrievalClaim toLowerCase isWhiteSpace question topic =
         retrievalClaim toLowerCase (\<lambda>c. c = 32) question topic"
proof (rule retrievalClaim_normalised)
  from assms(1,2) have "toLowerCase question = asciiLowerCase question"
    by (simp add: lowersAscii_def)
  with assms(3) show "\<forall>c \<in> set (toLowerCase question). isWhiteSpace c \<longrightarrow> c = 32"
    by (auto simp: asciiLowerCase_def isWhiteSpace_asciiLowerChar space_asciiLowerChar)
qed

lemma collapseWhitespace_spaces:
  "c \<in> set (collapseWhitespace s) \<Longrightarrow> isWhiteSpace c \<Longrightarrow> c = 32"
  by (induction s rule: collapseWhitespace.induct) (auto split: if_splits)

lemma set_replaceBanned: "set (replaceBanned prev s) \<subseteq> insert ((42::int)) (set s)"
proof (induction prev s rule: replaceBanned.induct)
  case (1 prev)
  show ?case by simp
next
  case (2 prev c cs)
  show ?case
  proof (cases "bannedRegexAt prev (c # cs)")
    case None
    with 2(1) [OF None] show ?thesis by auto
  next
    case (Some a)
    obtain m rest where a: "a = (m, rest)" by (cases a)
    with Some have "c # cs = m @ rest"
      by (simp add: bannedRegexAt_iff)
    then have "set rest \<subseteq> set (c # cs)"
      by (metis set_append sup_ge2)
    with 2(2) [OF Some a [symmetric]] Some a show ?thesis
      by (auto simp: maskToken_def str_def)
  qed
qed

lemma set_trim: "set (trim s) \<subseteq> set s"
proof -
  have "set (dropWhile P xs) \<subseteq> set xs" for P and xs :: jsString
    by (metis set_dropWhileD subsetI)
  then show ?thesis
    unfolding trim_def by (metis order_trans set_rev)
qed

lemma cleaned_whitespace:
  assumes "cleaned (filterInput raw) = Some q" and "c \<in> set q" and "isWhiteSpace c"
  shows "c = (32::int)"
proof -
  let ?text = "trim (collapseWhitespace raw)"
  have star: "\<not> isWhiteSpace ((42::int))" by (simp add: isWhiteSpace_def)
  from assms(1) have "q = replaceBanned None ?text \<or> q = stripAngleBrackets ?text"
    by (auto simp: filterInput_def Let_def split: if_splits)
  with assms(2) set_replaceBanned [of None ?text]
  have "c = (42::int) \<or> c \<in> set ?text"
    by (auto simp: stripAngleBrackets_def)
  with assms(3) star set_trim [of "collapseWhitespace raw"]
  have "c \<in> set (collapseWhitespace raw)" by auto
  then show ?thesis using assms(3) by (rule collapseWhitespace_spaces)
qed

end
